theory Spec2Isabelle
  imports Complex_Main
begin

section \<open>Flight booking simulator: data model\<close>

text \<open>
  The embedding follows \<^verbatim>\<open>milestone3.py\<close> (the pricing function is textually the same
  in \<^verbatim>\<open>backend2.py\<close>). Every ambient input the code reads for itself (the clock
  \<^verbatim>\<open>datetime.now\<close>, the draws of \<^verbatim>\<open>random\<close>, a statement failing in the database) is
  an explicit extra argument of the model, so that the dependence on it can be stated.

  Numbers: Python floats are taken as exact reals. The code computes in binary floating
  point, so a price of the model can differ from the price of the code in the last cent;
  no property below rests on the cents of a price.
\<close>

datatype status = PENDING | CONFIRMED | CANCELLED

datatype payment_status = PAYMENT_PENDING | PAID | FAILED

datatype error = HTTPException nat string

datatype py_exception = TypeError

subsection \<open>Dates\<close>

text \<open>
  A \<^verbatim>\<open>datetime\<close> is a point in time (in seconds) with or without a time zone.
  \<^verbatim>\<open>datetime.now(timezone.utc)\<close> is aware; what a row holds is what the database driver
  hands over, and the declared driver (\<^verbatim>\<open>mysql+pymysql\<close>) hands over naive values.
  Python refuses to subtract an aware from a naive \<^verbatim>\<open>datetime\<close>, or the reverse, with a
  \<^verbatim>\<open>TypeError\<close>.
\<close>

datatype datetime = Naive real | Aware real

definition datetime_sub :: "datetime \<Rightarrow> datetime \<Rightarrow> py_exception + real" where
  "datetime_sub a b =
     (case (a, b) of
        (Aware x, Aware y) \<Rightarrow> Inr (x - y)
      | (Naive x, Naive y) \<Rightarrow> Inr (x - y)
      | _ \<Rightarrow> Inl TypeError)"

subsection \<open>Dynamic pricing\<close>

text \<open>
  \<^verbatim>\<open>random.uniform(a, b)\<close> is \<^verbatim>\<open>a + (b - a) * random()\<close>; \<open>u\<close> is the value of
  \<^verbatim>\<open>random()\<close>, which lies in \<open>[0, 1)\<close>.
\<close>

definition uniform :: "real \<Rightarrow> real \<Rightarrow> real \<Rightarrow> real" where
  "uniform a b u = a + (b - a) * u"

text \<open>
  \<^verbatim>\<open>round(x, ndigits)\<close>: to the nearest multiple of \<open>10^(-ndigits)\<close>, a tie going to the
  even neighbour.
\<close>

definition py_round :: "real \<Rightarrow> nat \<Rightarrow> real" where
  "py_round x ndigits =
     (let y = x * 10 ^ ndigits;
          f = \<lfloor>y\<rfloor>;
          r = y - of_int f
      in of_int (if r < 1 / 2 then f
                 else if 1 / 2 < r then f + 1
                 else if even f then f else f + 1) / 10 ^ ndigits)"

text \<open>
  \<open>now\<close> is what \<^verbatim>\<open>datetime.now(timezone.utc)\<close> returns inside the call and \<open>u\<close> the
  draw behind \<^verbatim>\<open>random.uniform(-0.1, 0.4)\<close>; the remaining five arguments are the
  parameters of the Python function. The subtraction \<^verbatim>\<open>departure_time - now\<close> is where
  the function can raise.
\<close>

definition calculate_dynamic_price ::
  "real \<Rightarrow> real \<Rightarrow> real \<Rightarrow> int \<Rightarrow> int \<Rightarrow> datetime \<Rightarrow> real option \<Rightarrow> py_exception + real" where
  "calculate_dynamic_price now u base_fare seats_available total_seats departure_time
       simulated_demand =
     (let seat_ratio = real_of_int seats_available / real_of_int (max 1 total_seats);
          seat_factor = (if seat_ratio < 0.1 then 0.8
                         else if seat_ratio < 0.25 then 0.5
                         else if seat_ratio < 0.5 then 0.2
                         else - 0.05)
      in case datetime_sub departure_time (Aware now) of
           Inl e \<Rightarrow> Inl e
         | Inr total_seconds \<Rightarrow>
             (let hours_left = max 0 (total_seconds / 3600);
                  time_factor = (if hours_left \<le> 24 then 0.6
                                 else if hours_left \<le> 168 then 0.25
                                 else - 0.05);
                  demand_factor = (case simulated_demand of
                                     None \<Rightarrow> uniform (- 0.1) 0.4 u
                                   | Some d \<Rightarrow> max (- 0.5) (min 1.0 d) * 0.4);
                  tier_bonus = (if base_fare < 2000 then 0.0
                                else if base_fare < 5000 then 0.05
                                else 0.1);
                  dynamic_price =
                    base_fare * (1 + seat_factor + time_factor + demand_factor + tier_bonus);
                  dynamic_price = max 50.0 dynamic_price
              in Inr (py_round dynamic_price 2)))"

subsection \<open>Tables\<close>

text \<open>
  One record per table row, with the columns the code reads or writes. A table is the
  list of its rows in insertion order: \<^verbatim>\<open>SELECT ... .first()\<close> is \<^const>\<open>find\<close>,
  \<^verbatim>\<open>UPDATE ... WHERE\<close> maps over the rows that match, \<^verbatim>\<open>INSERT\<close> appends, and
  \<^verbatim>\<open>lastrowid\<close> is the table's auto-increment counter.
\<close>

record flight =
  flight_id :: int
  base_fare :: real
  seats_available :: int
  total_seats :: int
  departure_date_time :: datetime

record passenger =
  passenger_id :: int
  first_name :: string
  last_name :: string
  email :: string

record booking =
  booking_id :: int
  b_flight_id :: int
  b_passenger_id :: int
  seat_no :: string
  status :: status
  price :: "real option"
  payment_status :: payment_status
  pnr :: "string option"
  booking_date :: real

record fare_history =
  fh_flight_id :: int
  fh_base_fare :: real
  fh_dynamic_price :: real
  fh_seats_available :: int
  fh_total_seats :: int
  reason :: string

record database =
  Flights :: "flight list"
  Passengers :: "passenger list"
  Bookings :: "booking list"
  FareHistory :: "fare_history list"
  Passengers_auto_increment :: int
  Bookings_auto_increment :: int

subsection \<open>Requests and responses\<close>

record StartBookingRequest =
  req_flight_id :: int
  passenger_first_name :: string
  passenger_last_name :: string
  passenger_email :: string
  requested_seat :: "string option"

record PaymentRequest =
  req_booking_id :: int
  simulate_success :: "bool option"

record CancelRequest =
  req_pnr :: string

record BookingResponse =
  r_booking_id :: int
  r_flight_id :: int
  r_passenger_id :: int
  r_seat_no :: "string option"
  r_status :: status
  r_pnr :: "string option"
  r_price :: "real option"
  r_payment_status :: "payment_status option"
  r_booking_date :: "real option"

definition response_of_row :: "booking \<Rightarrow> BookingResponse" where
  "response_of_row out =
     \<lparr>r_booking_id = booking_id out, r_flight_id = b_flight_id out,
      r_passenger_id = b_passenger_id out, r_seat_no = Some (seat_no out),
      r_status = status out, r_pnr = pnr out, r_price = price out,
      r_payment_status = Some (payment_status out),
      r_booking_date = Some (booking_date out)\<rparr>"

subsection \<open>Helpers\<close>

definition ascii_uppercase :: string where
  "ascii_uppercase = ''ABCDEFGHIJKLMNOPQRSTUVWXYZ''"

definition digits :: string where
  "digits = ''0123456789''"

text \<open>
  \<^verbatim>\<open>random.choices(population, k=k)\<close> draws \<open>k\<close> indices below the length of the
  population; \<open>rng i\<close> is the \<open>i\<close>-th raw draw, reduced into range.
\<close>

definition choices :: "(nat \<Rightarrow> nat) \<Rightarrow> 'a list \<Rightarrow> nat \<Rightarrow> 'a list" where
  "choices rng population k = map (\<lambda>i. population ! (rng i mod length population)) [0..<k]"

definition generate_pnr :: "(nat \<Rightarrow> nat) \<Rightarrow> nat \<Rightarrow> string" where
  "generate_pnr rng len = choices rng (ascii_uppercase @ digits) len"

function str_nat :: "nat \<Rightarrow> string" where
  "str_nat n = (if n < 10 then [char_of (48 + n)]
                else str_nat (n div 10) @ [char_of (48 + n mod 10)])"
  by pat_completeness auto
termination
  by (relation "measure (\<lambda>n. n)") auto

definition str_int :: "int \<Rightarrow> string" where
  "str_int i = (if i < 0 then CHR ''-'' # str_nat (nat (- i)) else str_nat (nat i))"

definition status_str :: "status \<Rightarrow> string" where
  "status_str s = (case s of PENDING \<Rightarrow> ''PENDING'' | CONFIRMED \<Rightarrow> ''CONFIRMED''
                   | CANCELLED \<Rightarrow> ''CANCELLED'')"

definition flight_by_id :: "database \<Rightarrow> int \<Rightarrow> flight option" where
  "flight_by_id db fid = find (\<lambda>f. flight_id f = fid) (Flights db)"

definition booking_by_id :: "database \<Rightarrow> int \<Rightarrow> booking option" where
  "booking_by_id db bid = find (\<lambda>b. booking_id b = bid) (Bookings db)"

definition add_seats :: "int \<Rightarrow> int \<Rightarrow> flight list \<Rightarrow> flight list" where
  "add_seats fid d fs =
     map (\<lambda>f. if flight_id f = fid then f\<lparr>seats_available := seats_available f + d\<rparr> else f) fs"


section \<open>Booking workflow\<close>

text \<open>
  A statement sent to the database can fail. \<open>fails k\<close> says whether the \<open>k\<close>-th
  statement of a transaction does; the exception leaves the \<^verbatim>\<open>with\<close> block, which rolls
  the transaction back, and the handler around the block answers 500.
\<close>

definition raising :: "(nat \<Rightarrow> bool) \<Rightarrow> nat \<Rightarrow> string \<Rightarrow> error + 'a \<Rightarrow> error + 'a" where
  "raising fails k detail rest = (if fails k then Inl (HTTPException 500 detail) else rest)"

text \<open>
  Leaving \<^verbatim>\<open>with engine.begin() as conn\<close>: the transaction's copy of the database is
  committed when the block ends normally and dropped when an exception passes through.
\<close>

definition finish ::
  "database \<Rightarrow> error + database \<times> BookingResponse \<Rightarrow> database \<times> (error + BookingResponse)" where
  "finish db r = (case r of Inl e \<Rightarrow> (db, Inl e) | Inr (db', resp) \<Rightarrow> (db', Inr resp))"

subsection \<open>\<^verbatim>\<open>start_booking\<close>\<close>

text \<open>
  The body of \<^verbatim>\<open>with engine.begin() as conn\<close> in three parts, each working on the
  transaction's copy of the database and either raising (\<open>Inl\<close>) or returning the copy to
  commit together with the response. \<open>now\<close> is the clock (\<^verbatim>\<open>datetime.now\<close>,
  \<^verbatim>\<open>NOW()\<close>), \<open>u\<close> the random draw of the price quoted at hold time.

  \<open>start_booking_insert\<close> is the part from the departure query on, once the seat label
  \<open>seat\<close> and the passenger \<open>pid\<close> are known: statements 4 to 6. An exception of the price
  computation is caught by the same handler as a failing statement.
\<close>

definition start_booking_insert ::
  "(nat \<Rightarrow> bool) \<Rightarrow> real \<Rightarrow> real \<Rightarrow> database \<Rightarrow> StartBookingRequest \<Rightarrow> flight \<Rightarrow> string \<Rightarrow> int
     \<Rightarrow> error + database \<times> BookingResponse" where
  "start_booking_insert fails now u db1 req locked seat pid =
     raising fails 4 ''Could not start booking''
       (let departure_dt =
              (case flight_by_id db1 (req_flight_id req) of
                 Some f \<Rightarrow> departure_date_time f
               | None \<Rightarrow> Aware (now + 86400))
        in case calculate_dynamic_price now u (base_fare locked) (seats_available locked)
                  (total_seats locked) departure_dt None of
             Inl e \<Rightarrow> Inl (HTTPException 500 ''Could not start booking'')
           | Inr dynamic_price \<Rightarrow>
               raising fails 5 ''Could not start booking''
                 (let bid = Bookings_auto_increment db1;
                      db2 = db1\<lparr>Bookings := Bookings db1 @
                                  [\<lparr>booking_id = bid, b_flight_id = req_flight_id req,
                                    b_passenger_id = pid, seat_no = seat, status = PENDING,
                                    price = Some dynamic_price,
                                    payment_status = PAYMENT_PENDING, pnr = None,
                                    booking_date = now\<rparr>],
                                Bookings_auto_increment := bid + 1\<rparr>
                  in raising fails 6 ''Could not start booking''
                       (let db3 = db2\<lparr>Flights :=
                                        add_seats (req_flight_id req) (- 1) (Flights db2)\<rparr>
                        in Inr (db3,
                             \<lparr>r_booking_id = bid, r_flight_id = req_flight_id req,
                              r_passenger_id = pid, r_seat_no = Some seat, r_status = PENDING,
                              r_pnr = None, r_price = Some dynamic_price,
                              r_payment_status = Some PAYMENT_PENDING,
                              r_booking_date = Some now\<rparr>))))"

text \<open>
  \<open>start_booking_locked\<close> is what follows \<^verbatim>\<open>SELECT ... FOR UPDATE\<close>, for the row
  \<open>locked\<close> which that statement returned: the seat test, the seat label, and the
  passenger, looked up (statement 2) or inserted (statement 3).
\<close>

definition start_booking_locked ::
  "(nat \<Rightarrow> bool) \<Rightarrow> real \<Rightarrow> real \<Rightarrow> database \<Rightarrow> StartBookingRequest \<Rightarrow> flight
     \<Rightarrow> error + database \<times> BookingResponse" where
  "start_booking_locked fails now u db req locked =
     (if seats_available locked \<le> 0 then Inl (HTTPException 409 ''No seats available'')
      else
        (let used_count = total_seats locked - seats_available locked;
             seat_row_num = used_count + 1;
             seat_letter = (char_of (65 + ((seat_row_num - 1) mod 6)) :: char);
             seat = str_int seat_row_num @ [seat_letter]
         in raising fails 2 ''Could not start booking''
              (case find (\<lambda>p. email p = passenger_email req) (Passengers db) of
                 Some p \<Rightarrow> start_booking_insert fails now u db req locked seat (passenger_id p)
               | None \<Rightarrow>
                   raising fails 3 ''Could not start booking''
                     (start_booking_insert fails now u
                        (db\<lparr>Passengers := Passengers db @
                               [\<lparr>passenger_id = Passengers_auto_increment db,
                                 first_name = passenger_first_name req,
                                 last_name = passenger_last_name req,
                                 email = passenger_email req\<rparr>],
                             Passengers_auto_increment := Passengers_auto_increment db + 1\<rparr>)
                        req locked seat (Passengers_auto_increment db)))))"

text \<open>The locking read (statement 1), then the rest.\<close>

definition start_booking_txn ::
  "(nat \<Rightarrow> bool) \<Rightarrow> real \<Rightarrow> real \<Rightarrow> database \<Rightarrow> StartBookingRequest
     \<Rightarrow> error + database \<times> BookingResponse" where
  "start_booking_txn fails now u db req =
     raising fails 1 ''Could not start booking''
       (case flight_by_id db (req_flight_id req) of
          None \<Rightarrow> Inl (HTTPException 404 ''Flight not found (locked)'')
        | Some locked \<Rightarrow> start_booking_locked fails now u db req locked)"

text \<open>The endpoint: the unlocked existence check, then the transaction.\<close>

definition start_booking ::
  "(nat \<Rightarrow> bool) \<Rightarrow> real \<Rightarrow> real \<Rightarrow> database \<Rightarrow> StartBookingRequest
     \<Rightarrow> database \<times> (error + BookingResponse)" where
  "start_booking fails now u db req =
     (case flight_by_id db (req_flight_id req) of
        None \<Rightarrow> (db, Inl (HTTPException 404 ''Flight not found''))
      | Some flight_row \<Rightarrow> finish db (start_booking_txn fails now u db req))"

subsection \<open>\<^verbatim>\<open>confirm_payment\<close>\<close>

text \<open>
  The endpoint reads the booking and tests its status on the session, outside any
  transaction and without a lock (\<open>confirm_payment_read\<close>). The transaction comes
  afterwards, works on the database as it is by then, and does not look at the status
  again: it takes the row \<open>bk\<close> that the read returned, and updates by booking id.
\<close>

definition confirm_payment_read :: "database \<Rightarrow> PaymentRequest \<Rightarrow> error + booking" where
  "confirm_payment_read db req =
     (case booking_by_id db (req_booking_id req) of
        None \<Rightarrow> Inl (HTTPException 404 ''Booking not found'')
      | Some bk \<Rightarrow>
          if status bk \<noteq> PENDING
          then Inl (HTTPException 400
                 (''Booking not in PENDING state (current: '' @ status_str (status bk) @ '')''))
          else Inr bk)"

text \<open>
  The simulated outcome: the request's \<^verbatim>\<open>simulate_success\<close> when given, else
  \<^verbatim>\<open>random.choice([True, False, True])\<close>, \<open>c\<close> being the draw behind it.
\<close>

definition pay_outcome :: "nat \<Rightarrow> PaymentRequest \<Rightarrow> bool" where
  "pay_outcome c req =
     (case simulate_success req of None \<Rightarrow> [True, False, True] ! (c mod 3) | Some b \<Rightarrow> b)"

text \<open>
  \<open>rng\<close> feeds \<^verbatim>\<open>generate_pnr\<close>. Statement 1 locks the flight row; the row of the booking
  is read back after the updates, and were it missing, subscripting \<^verbatim>\<open>None\<close> would raise
  and the handler would answer 500.
\<close>

definition confirm_payment_txn ::
  "(nat \<Rightarrow> bool) \<Rightarrow> (nat \<Rightarrow> nat) \<Rightarrow> real \<Rightarrow> database \<Rightarrow> PaymentRequest \<Rightarrow> booking \<Rightarrow> bool
     \<Rightarrow> error + database \<times> BookingResponse" where
  "confirm_payment_txn fails rng now db req bk success =
     raising fails 1 ''Payment update error''
       (if success then
          (let code = generate_pnr rng 6
           in raising fails 2 ''Payment update error''
                (let db1 = db\<lparr>Bookings :=
                             map (\<lambda>b. if booking_id b = req_booking_id req
                                       then b\<lparr>status := CONFIRMED, pnr := Some code,
                                              payment_status := PAID, booking_date := now\<rparr>
                                       else b) (Bookings db)\<rparr>
                 in raising fails 3 ''Payment update error''
                      (case booking_by_id db1 (req_booking_id req) of
                         None \<Rightarrow> Inl (HTTPException 500 ''Payment update error'')
                       | Some booking_out \<Rightarrow> Inr (db1, response_of_row booking_out))))
        else
          raising fails 2 ''Payment update error''
            (let db1 = db\<lparr>Bookings :=
                         map (\<lambda>b. if booking_id b = req_booking_id req
                                   then b\<lparr>status := CANCELLED, payment_status := FAILED,
                                          booking_date := now\<rparr>
                                   else b) (Bookings db)\<rparr>
             in raising fails 3 ''Payment update error''
                  (let db2 = db1\<lparr>Flights := add_seats (b_flight_id bk) 1 (Flights db1)\<rparr>
                   in raising fails 4 ''Payment update error''
                        (case booking_by_id db2 (req_booking_id req) of
                           None \<Rightarrow> Inl (HTTPException 500 ''Payment update error'')
                         | Some booking_out \<Rightarrow> Inr (db2, response_of_row booking_out)))))"

text \<open>
  A payment that no other request overlaps: the transaction meets the database that the
  read saw.
\<close>

definition confirm_payment ::
  "(nat \<Rightarrow> bool) \<Rightarrow> nat \<Rightarrow> (nat \<Rightarrow> nat) \<Rightarrow> real \<Rightarrow> database \<Rightarrow> PaymentRequest
     \<Rightarrow> database \<times> (error + BookingResponse)" where
  "confirm_payment fails c rng now db req =
     (case confirm_payment_read db req of
        Inl e \<Rightarrow> (db, Inl e)
      | Inr bk \<Rightarrow> finish db (confirm_payment_txn fails rng now db req bk (pay_outcome c req)))"

subsection \<open>\<^verbatim>\<open>cancel_booking\<close>\<close>

text \<open>
  The lookup is \<^verbatim>\<open>WHERE pnr = :pnr OR booking_id = :maybe_id\<close> with the same string bound
  to both parameters. How the database compares the integer column with a string is not
  part of the repository; \<open>sql_id\<close> is that coercion (\<open>None\<close>: the string equals no id).
  As in \<^verbatim>\<open>confirm_payment\<close>, the lookup and the status test are made on the session
  before the transaction, which does not repeat them.
\<close>

definition booking_by_pnr_or_id ::
  "(string \<Rightarrow> int option) \<Rightarrow> database \<Rightarrow> string \<Rightarrow> booking option" where
  "booking_by_pnr_or_id sql_id db code =
     find (\<lambda>b. pnr b = Some code \<or> sql_id code = Some (booking_id b)) (Bookings db)"

definition cancel_booking_read ::
  "(string \<Rightarrow> int option) \<Rightarrow> database \<Rightarrow> CancelRequest \<Rightarrow> error + booking" where
  "cancel_booking_read sql_id db req =
     (case booking_by_pnr_or_id sql_id db (req_pnr req) of
        None \<Rightarrow> Inl (HTTPException 404 ''Booking not found'')
      | Some bk \<Rightarrow>
          if status bk = CANCELLED then Inl (HTTPException 400 ''Booking already cancelled'')
          else Inr bk)"

definition cancel_booking_txn ::
  "(nat \<Rightarrow> bool) \<Rightarrow> database \<Rightarrow> booking \<Rightarrow> error + database \<times> BookingResponse" where
  "cancel_booking_txn fails db bk =
     raising fails 1 ''Cancel error''
       (raising fails 2 ''Cancel error''
          (let db1 = db\<lparr>Bookings :=
                       map (\<lambda>b. if booking_id b = booking_id bk then b\<lparr>status := CANCELLED\<rparr>
                                 else b) (Bookings db)\<rparr>
           in raising fails 3 ''Cancel error''
                (let db2 = db1\<lparr>Flights := add_seats (b_flight_id bk) 1 (Flights db1)\<rparr>
                 in raising fails 4 ''Cancel error''
                      (case booking_by_id db2 (booking_id bk) of
                         None \<Rightarrow> Inl (HTTPException 500 ''Cancel error'')
                       | Some out \<Rightarrow> Inr (db2, response_of_row out)))))"

text \<open>A cancellation that no other request overlaps.\<close>

definition cancel_booking ::
  "(nat \<Rightarrow> bool) \<Rightarrow> (string \<Rightarrow> int option) \<Rightarrow> database \<Rightarrow> CancelRequest
     \<Rightarrow> database \<times> (error + BookingResponse)" where
  "cancel_booking fails sql_id db req =
     (case cancel_booking_read sql_id db req of
        Inl e \<Rightarrow> (db, Inl e)
      | Inr bk \<Rightarrow> finish db (cancel_booking_txn fails db bk))"

section \<open>Market simulator\<close>

text \<open>
  What one iteration of \<^verbatim>\<open>for f in flights\<close> takes from outside: the draw behind
  \<^verbatim>\<open>random.choice([-3, -2, -1, 0, 1, 2])\<close>, the draw behind
  \<^verbatim>\<open>random.uniform(-0.5, 1.0)\<close>, the clock, and whether a statement of the iteration
  raises (a database error, say); the repository has no way to provoke that by itself,
  so it is an input. The departure time handed to the pricing function is the aware
  \<^verbatim>\<open>datetime.now(timezone.utc) + timedelta(days=1)\<close>. (\<^verbatim>\<open>backend2.py\<close> passes the
  fare as the database returns it, \<^verbatim>\<open>milestone3.py\<close> converts it with \<^verbatim>\<open>float\<close>; the
  model follows the latter.)
\<close>

record tick_draw =
  change_draw :: nat
  demand_draw :: real
  tick_now :: real
  raises :: bool

definition simulate_flight :: "tick_draw \<Rightarrow> flight \<Rightarrow> database \<Rightarrow> string + database" where
  "simulate_flight d f db =
     (if raises d then Inl ''Simulation error''
      else
        (let change = [- 3, - 2, - 1, 0, 1, 2] ! (change_draw d mod 6);
             new_seats = max 0 (min (total_seats f) (seats_available f + change));
             db1 = db\<lparr>Flights :=
                     map (\<lambda>g. if flight_id g = flight_id f
                               then g\<lparr>seats_available := new_seats\<rparr> else g) (Flights db)\<rparr>;
             demand_level = uniform (- 0.5) 1.0 (demand_draw d)
         in case calculate_dynamic_price (tick_now d) 0 (base_fare f) new_seats (total_seats f)
                   (Aware (tick_now d + 86400)) (Some demand_level) of
              Inl e \<Rightarrow> Inl ''Simulation error''
            | Inr dynamic_price \<Rightarrow>
                Inr (db1\<lparr>FareHistory := FareHistory db1 @
                          [\<lparr>fh_flight_id = flight_id f, fh_base_fare = base_fare f,
                            fh_dynamic_price = dynamic_price, fh_seats_available = new_seats,
                            fh_total_seats = total_seats f, reason = ''simulator''\<rparr>]\<rparr>)))"

text \<open>
  The \<^verbatim>\<open>for\<close> loop over the rows selected at the start of the tick; \<open>i\<close> counts the
  iterations. An exception leaves the loop at once.
\<close>

fun simulate_flights ::
  "(nat \<Rightarrow> tick_draw) \<Rightarrow> nat \<Rightarrow> flight list \<Rightarrow> database \<Rightarrow> string + database" where
  "simulate_flights draws i [] db = Inr db"
| "simulate_flights draws i (f # fs) db =
     (case simulate_flight (draws i) f db of
        Inl e \<Rightarrow> Inl e
      | Inr db' \<Rightarrow> simulate_flights draws (Suc i) fs db')"

text \<open>
  One pass of the body of \<^verbatim>\<open>while True\<close>: \<^verbatim>\<open>db.commit()\<close> after the loop, or the
  handler, which prints the error and calls \<^verbatim>\<open>db.rollback()\<close>. The second component is
  the line printed, if any.
\<close>

definition simulate_market_tick ::
  "(nat \<Rightarrow> tick_draw) \<Rightarrow> database \<Rightarrow> database \<times> string option" where
  "simulate_market_tick draws db =
     (case simulate_flights draws 0 (Flights db) db of
        Inl e \<Rightarrow> (db, Some e)
      | Inr db' \<Rightarrow> (db', None))"

text \<open>
  \<^verbatim>\<open>while True\<close> never returns; \<open>simulate_market n\<close> is the database and the printed
  lines after its first \<open>n\<close> passes, \<open>draws k\<close> feeding pass \<open>k\<close>.
\<close>

fun simulate_market ::
  "nat \<Rightarrow> (nat \<Rightarrow> nat \<Rightarrow> tick_draw) \<Rightarrow> database \<Rightarrow> database \<times> string list" where
  "simulate_market 0 draws db = (db, [])"
| "simulate_market (Suc n) draws db =
     (let (db1, printed) = simulate_market n draws db;
          (db2, out) = simulate_market_tick (draws n) db1
      in (db2, printed @ (case out of None \<Rightarrow> [] | Some e \<Rightarrow> [e])))"

text \<open>What a pass that commits makes of the \<open>i\<close>-th flight, and what it logs for it.\<close>

definition nudge :: "tick_draw \<Rightarrow> flight \<Rightarrow> int" where
  "nudge d f =
     max 0 (min (total_seats f)
       (seats_available f + [- 3, - 2, - 1, 0, 1, 2] ! (change_draw d mod 6)))"

definition nudged :: "(nat \<Rightarrow> tick_draw) \<Rightarrow> nat \<times> flight \<Rightarrow> flight" where
  "nudged draws p = (snd p)\<lparr>seats_available := nudge (draws (fst p)) (snd p)\<rparr>"

section \<open>Histories\<close>

subsection \<open>Requests served one at a time\<close>

text \<open>
  A request or a simulator pass together with the ambient values it consumes, served
  from its first statement to its last with nothing in between.
\<close>

datatype operation =
    Hold "nat \<Rightarrow> bool" real real StartBookingRequest
  | Pay "nat \<Rightarrow> bool" nat "nat \<Rightarrow> nat" real PaymentRequest
  | Cancel "nat \<Rightarrow> bool" CancelRequest
  | Tick "nat \<Rightarrow> tick_draw"

definition apply_operation :: "(string \<Rightarrow> int option) \<Rightarrow> database \<Rightarrow> operation \<Rightarrow> database" where
  "apply_operation sql_id db op =
     (case op of
        Hold fails now u req \<Rightarrow> fst (start_booking fails now u db req)
      | Pay fails c rng now req \<Rightarrow> fst (confirm_payment fails c rng now db req)
      | Cancel fails req \<Rightarrow> fst (cancel_booking fails sql_id db req)
      | Tick draws \<Rightarrow> fst (simulate_market_tick draws db))"

definition run :: "(string \<Rightarrow> int option) \<Rightarrow> database \<Rightarrow> operation list \<Rightarrow> database" where
  "run sql_id db ops = foldl (apply_operation sql_id) db ops"

definition is_tick :: "operation \<Rightarrow> bool" where
  "is_tick op = (case op of Tick draws \<Rightarrow> True | _ \<Rightarrow> False)"

subsection \<open>Requests that overlap\<close>

text \<open>
  When requests overlap, what reaches the database one after the other are their
  transactions (each holds the lock of its flight row to its end) and the simulator's
  passes. The transaction of a payment or of a cancellation carries the booking row that
  the request read earlier, on a database that may have changed since; a hold does its
  reading inside its transaction. A step is one such transaction, for any row it may
  carry.
\<close>

datatype step =
    Hold_step "nat \<Rightarrow> bool" real real StartBookingRequest
  | Pay_step "nat \<Rightarrow> bool" "nat \<Rightarrow> nat" real PaymentRequest booking bool
  | Cancel_step "nat \<Rightarrow> bool" booking
  | Tick_step "nat \<Rightarrow> tick_draw"

definition apply_step :: "database \<Rightarrow> step \<Rightarrow> database" where
  "apply_step db st =
     (case st of
        Hold_step fails now u req \<Rightarrow> fst (start_booking fails now u db req)
      | Pay_step fails rng now req bk success \<Rightarrow>
          fst (finish db (confirm_payment_txn fails rng now db req bk success))
      | Cancel_step fails bk \<Rightarrow> fst (finish db (cancel_booking_txn fails db bk))
      | Tick_step draws \<Rightarrow> fst (simulate_market_tick draws db))"

definition run_steps :: "database \<Rightarrow> step list \<Rightarrow> database" where
  "run_steps db sts = foldl apply_step db sts"

subsection \<open>Properties of a database\<close>

text \<open>The bookings that hold a seat of flight \<open>fid\<close>: those pending or confirmed.\<close>

definition active_bookings :: "database \<Rightarrow> int \<Rightarrow> nat" where
  "active_bookings db fid =
     length (filter (\<lambda>b. b_flight_id b = fid \<and> (status b = PENDING \<or> status b = CONFIRMED))
               (Bookings db))"

definition seats_match_bookings :: "database \<Rightarrow> bool" where
  "seats_match_bookings db =
     list_all (\<lambda>f. seats_available f = total_seats f - int (active_bookings db (flight_id f)))
       (Flights db)"

text \<open>
  What auto-increment gives the Bookings table: ids that differ from row to row and lie
  below the counter.
\<close>

definition booking_ids_fresh :: "database \<Rightarrow> bool" where
  "booking_ids_fresh db =
     (distinct (map booking_id (Bookings db))
      \<and> list_all (\<lambda>b. booking_id b < Bookings_auto_increment db) (Bookings db))"

definition pnr_matches_status :: "database \<Rightarrow> bool" where
  "pnr_matches_status db =
     list_all (\<lambda>b. (status b = CONFIRMED \<longrightarrow> pnr b \<noteq> None) \<and> (status b = PENDING \<longrightarrow> pnr b = None))
       (Bookings db)"

text \<open>What a transaction answers, reduced to the status of the booking it returns.\<close>

definition answer_status :: "error + database \<times> BookingResponse \<Rightarrow> error + status" where
  "answer_status r = (case r of Inl e \<Rightarrow> Inl e | Inr (db', resp) \<Rightarrow> Inr (r_status resp))"

subsection \<open>Example data\<close>

definition no_faults :: "nat \<Rightarrow> bool" where
  "no_faults k = False"

definition fails_at :: "nat \<Rightarrow> nat \<Rightarrow> bool" where
  "fails_at n k = (k = n)"

definition flight1 :: flight where
  "flight1 = \<lparr>flight_id = 1, base_fare = 3000, seats_available = 2, total_seats = 2,
              departure_date_time = Aware 86400\<rparr>"

definition flight2 :: flight where
  "flight2 = \<lparr>flight_id = 2, base_fare = 1000, seats_available = 5, total_seats = 10,
              departure_date_time = Aware 864000\<rparr>"

definition db0 :: database where
  "db0 = \<lparr>Flights = [flight1], Passengers = [], Bookings = [], FareHistory = [],
          Passengers_auto_increment = 1, Bookings_auto_increment = 1\<rparr>"

definition db2 :: database where
  "db2 = \<lparr>Flights = [flight1, flight2], Passengers = [], Bookings = [], FareHistory = [],
          Passengers_auto_increment = 1, Bookings_auto_increment = 1\<rparr>"

text \<open>The same flight as the declared driver returns it: the departure time is naive.\<close>

definition flight_naive :: flight where
  "flight_naive = \<lparr>flight_id = 1, base_fare = 3000, seats_available = 2, total_seats = 2,
                   departure_date_time = Naive 86400\<rparr>"

definition db_naive :: database where
  "db_naive = \<lparr>Flights = [flight_naive], Passengers = [], Bookings = [], FareHistory = [],
               Passengers_auto_increment = 1, Bookings_auto_increment = 1\<rparr>"

definition alice :: StartBookingRequest where
  "alice = \<lparr>req_flight_id = 1, passenger_first_name = ''Alice'', passenger_last_name = ''A'',
            passenger_email = ''alice@example.org'', requested_seat = None\<rparr>"

definition bob :: StartBookingRequest where
  "bob = \<lparr>req_flight_id = 1, passenger_first_name = ''Bob'', passenger_last_name = ''B'',
          passenger_email = ''bob@example.org'', requested_seat = None\<rparr>"

definition up_draw :: "nat \<Rightarrow> tick_draw" where
  "up_draw i = \<lparr>change_draw = 4, demand_draw = 0, tick_now = 0, raises = False\<rparr>"

definition down_draw :: "nat \<Rightarrow> tick_draw" where
  "down_draw i = \<lparr>change_draw = 2, demand_draw = 0, tick_now = 0, raises = False\<rparr>"

definition failing_draw :: "nat \<Rightarrow> nat \<Rightarrow> tick_draw" where
  "failing_draw k i = \<lparr>change_draw = 2, demand_draw = 0, tick_now = 0, raises = (i = k)\<rparr>"

definition failing_passes :: "nat \<Rightarrow> nat \<Rightarrow> tick_draw" where
  "failing_passes n = failing_draw 1"

definition raw_id :: "string \<Rightarrow> int option" where
  "raw_id s = (if s = ''1'' then Some 1 else if s = ''2'' then Some 2 else None)"

definition db_held :: database where
  "db_held = fst (start_booking no_faults 0 0 db0 alice)"

definition pay_ok :: PaymentRequest where
  "pay_ok = \<lparr>req_booking_id = 1, simulate_success = Some True\<rparr>"

definition pay_fail :: PaymentRequest where
  "pay_fail = \<lparr>req_booking_id = 1, simulate_success = Some False\<rparr>"

definition booking1 :: booking where
  "booking1 = \<lparr>booking_id = 1, b_flight_id = 1, b_passenger_id = 1, seat_no = ''1A'',
               status = PENDING, price = Some 4500, payment_status = PAYMENT_PENDING,
               pnr = None, booking_date = 0\<rparr>"

text \<open>
  A database that already holds a pending booking for its flight, and the same with the
  booking confirmed.
\<close>

definition db_pending :: database where
  "db_pending = \<lparr>Flights = [flight1\<lparr>seats_available := 1\<rparr>],
                 Passengers = [\<lparr>passenger_id = 1, first_name = ''Alice'', last_name = ''A'',
                                email = ''alice@example.org''\<rparr>],
                 Bookings = [booking1], FareHistory = [],
                 Passengers_auto_increment = 2, Bookings_auto_increment = 2\<rparr>"

definition booking1_confirmed :: booking where
  "booking1_confirmed = booking1\<lparr>status := CONFIRMED, pnr := Some ''ABCDEF'',
                                 payment_status := PAID, booking_date := 5\<rparr>"

definition db_confirmed :: database where
  "db_confirmed = db_pending\<lparr>Bookings := [booking1_confirmed]\<rparr>"

definition cancel_code :: CancelRequest where
  "cancel_code = \<lparr>req_pnr = ''ABCDEF''\<rparr>"

definition cancel_id :: CancelRequest where
  "cancel_id = \<lparr>req_pnr = ''1''\<rparr>"

definition history_confirm_cancel :: "operation list" where
  "history_confirm_cancel =
     [Hold no_faults 0 0 alice, Pay no_faults 0 id 5 pay_ok, Cancel no_faults cancel_code]"

definition history_hold_tick_cancel :: "operation list" where
  "history_hold_tick_cancel = [Hold no_faults 0 0 alice, Tick up_draw, Cancel no_faults cancel_id]"

definition history_hold_tick_pay :: "operation list" where
  "history_hold_tick_pay = [Hold no_faults 0 0 alice, Tick down_draw, Pay no_faults 0 id 5 pay_ok]"

definition history_hold_tick_payfail :: "operation list" where
  "history_hold_tick_payfail =
     [Hold no_faults 0 0 alice, Tick up_draw, Pay no_faults 0 id 5 pay_fail]"

definition history_hold_pay_hold_cancel :: "operation list" where
  "history_hold_pay_hold_cancel =
     [Hold no_faults 0 0 alice, Pay no_faults 0 id 5 pay_ok, Hold no_faults 0 0 bob,
      Cancel no_faults cancel_code]"

text \<open>
  Histories from a database that already holds the pending booking: a simulator pass
  that draws +1, then the release of the booking.
\<close>

definition history_tick_cancel :: "operation list" where
  "history_tick_cancel = [Tick up_draw, Cancel no_faults cancel_id]"

definition history_tick_payfail :: "operation list" where
  "history_tick_payfail = [Tick up_draw, Pay no_faults 0 id 5 pay_fail]"

text \<open>
  Two payments of booking 1 that overlap: both requests read the booking while it is
  pending, then the transaction of the first (a success) runs, then the transaction of
  the second (a failure), which still carries the pending row.
\<close>

definition first_pay :: "error + database \<times> BookingResponse" where
  "first_pay = confirm_payment_txn no_faults id 5 db_pending pay_ok booking1 True"

definition second_pay :: "error + database \<times> BookingResponse" where
  "second_pay =
     confirm_payment_txn no_faults id 6 (fst (finish db_pending first_pay)) pay_fail booking1
       False"

text \<open>
  Two cancellations of the confirmed booking 1 that overlap: both requests read the
  booking while it is confirmed, then the two transactions run, one after the other.
\<close>

definition first_cancel :: "error + database \<times> BookingResponse" where
  "first_cancel = cancel_booking_txn no_faults db_confirmed booking1_confirmed"

definition second_cancel :: "error + database \<times> BookingResponse" where
  "second_cancel =
     cancel_booking_txn no_faults (fst (finish db_confirmed first_cancel)) booking1_confirmed"

definition overlapping_pays :: "step list" where
  "overlapping_pays =
     [Pay_step no_faults id 5 pay_ok booking1 True, Pay_step no_faults id 6 pay_fail booking1 False]"

section \<open>Concurrent holds\<close>

text \<open>
  Several \<^verbatim>\<open>start_booking\<close> requests in flight at once, each at one of four points:
  before the unlocked existence check; past it, about to run
  \<^verbatim>\<open>SELECT ... FOR UPDATE\<close>; holding the row lock, with the row that statement
  returned; or answered. The row lock is held from the locking read to the end of the
  transaction, so a request whose flight row is locked by another one waits.
\<close>

datatype hold_pc =
    Started
  | Waiting
  | Locked "flight option"
  | Finished "error + BookingResponse"

record hold_system =
  sys_db :: database
  sys_pcs :: "hold_pc list"

definition holds_lock :: "hold_pc \<Rightarrow> bool" where
  "holds_lock pc = (case pc of Locked snapshot \<Rightarrow> True | _ \<Rightarrow> False)"

definition row_locked :: "StartBookingRequest list \<Rightarrow> hold_pc list \<Rightarrow> int \<Rightarrow> bool" where
  "row_locked reqs pcs fid =
     list_ex (\<lambda>(r, pc). holds_lock pc \<and> req_flight_id r = fid) (zip reqs pcs)"

text \<open>
  The next step of request \<open>t\<close>, or \<open>None\<close> when it has none (it is answered) or has to
  wait (the row is locked). \<open>clock t\<close>, \<open>draw t\<close> and \<open>fails t\<close> are the ambient values
  request \<open>t\<close> reads. The writes of a transaction become visible when it ends, which is
  also when the lock is released; a transaction that raises is rolled back.
\<close>

definition thread_step ::
  "(nat \<Rightarrow> real) \<Rightarrow> (nat \<Rightarrow> real) \<Rightarrow> (nat \<Rightarrow> nat \<Rightarrow> bool) \<Rightarrow> StartBookingRequest list \<Rightarrow> nat
     \<Rightarrow> hold_system \<Rightarrow> hold_system option" where
  "thread_step clock draw fails reqs t s =
     (if t < length (sys_pcs s) \<and> t < length reqs then
        (case sys_pcs s ! t of
           Started \<Rightarrow>
             (case flight_by_id (sys_db s) (req_flight_id (reqs ! t)) of
                None \<Rightarrow>
                  Some (s\<lparr>sys_pcs := (sys_pcs s)
                            [t := Finished (Inl (HTTPException 404 ''Flight not found''))]\<rparr>)
              | Some flight_row \<Rightarrow> Some (s\<lparr>sys_pcs := (sys_pcs s)[t := Waiting]\<rparr>))
         | Waiting \<Rightarrow>
             (if row_locked reqs (sys_pcs s) (req_flight_id (reqs ! t)) then None
              else if fails t 1
              then Some (s\<lparr>sys_pcs := (sys_pcs s)
                            [t := Finished (Inl (HTTPException 500 ''Could not start booking''))]\<rparr>)
              else Some (s\<lparr>sys_pcs := (sys_pcs s)
                             [t := Locked (flight_by_id (sys_db s) (req_flight_id (reqs ! t)))]\<rparr>))
         | Locked snapshot \<Rightarrow>
             (case (case snapshot of
                      None \<Rightarrow> Inl (HTTPException 404 ''Flight not found (locked)'')
                    | Some locked \<Rightarrow>
                        start_booking_locked (fails t) (clock t) (draw t) (sys_db s) (reqs ! t)
                          locked) of
                Inl e \<Rightarrow> Some (s\<lparr>sys_pcs := (sys_pcs s)[t := Finished (Inl e)]\<rparr>)
              | Inr (db', resp) \<Rightarrow>
                  Some \<lparr>sys_db = db', sys_pcs = (sys_pcs s)[t := Finished (Inr resp)]\<rparr>)
         | Finished r \<Rightarrow> None)
      else None)"

text \<open>
  An interleaving is the list of request numbers in the order in which they are given a
  turn; a turn given to a request that cannot move changes nothing.
\<close>

fun run_schedule ::
  "(nat \<Rightarrow> real) \<Rightarrow> (nat \<Rightarrow> real) \<Rightarrow> (nat \<Rightarrow> nat \<Rightarrow> bool) \<Rightarrow> StartBookingRequest list \<Rightarrow> nat list
     \<Rightarrow> hold_system \<Rightarrow> hold_system" where
  "run_schedule clock draw fails reqs [] s = s"
| "run_schedule clock draw fails reqs (t # ts) s =
     run_schedule clock draw fails reqs ts
       (case thread_step clock draw fails reqs t s of None \<Rightarrow> s | Some s' \<Rightarrow> s')"

definition launch :: "database \<Rightarrow> StartBookingRequest list \<Rightarrow> hold_system" where
  "launch db reqs = \<lparr>sys_db = db, sys_pcs = replicate (length reqs) Started\<rparr>"

definition is_finished :: "hold_pc \<Rightarrow> bool" where
  "is_finished pc = (case pc of Finished r \<Rightarrow> True | _ \<Rightarrow> False)"

definition is_held :: "hold_pc \<Rightarrow> bool" where
  "is_held pc = (case pc of Finished (Inr resp) \<Rightarrow> True | _ \<Rightarrow> False)"

definition is_no_seats :: "hold_pc \<Rightarrow> bool" where
  "is_no_seats pc = (pc = Finished (Inl (HTTPException 409 ''No seats available'')))"

definition is_server_error :: "hold_pc \<Rightarrow> bool" where
  "is_server_error pc = (pc = Finished (Inl (HTTPException 500 ''Could not start booking'')))"

text \<open>
  What the proof below keeps true while requests for flight \<open>fid\<close>, which had \<open>K\<close> seats
  at launch over the database \<open>start\<close>, run without a failing statement on a flight whose
  departure time is aware: the seat count is \<open>K\<close> minus the holds granted and not
  negative, a rejection for lack of seats means the count is 0, at most one request holds
  the row lock, the row it read is the current one, and every answer is a hold or such a
  rejection.
\<close>

definition hold_invariant ::
  "database \<Rightarrow> int \<Rightarrow> nat \<Rightarrow> StartBookingRequest list \<Rightarrow> hold_system \<Rightarrow> bool" where
  "hold_invariant start fid K reqs s =
     (length (sys_pcs s) = length reqs
      \<and> (\<exists>g. flight_by_id (sys_db s) fid = Some g
             \<and> (\<exists>dep. departure_date_time g = Aware dep)
             \<and> seats_available g = int K - int (length (filter is_held (sys_pcs s)))
             \<and> 0 \<le> seats_available g
             \<and> (list_ex is_no_seats (sys_pcs s) \<longrightarrow> seats_available g = 0))
      \<and> length (Bookings (sys_db s))
          = length (Bookings start) + length (filter is_held (sys_pcs s))
      \<and> length (filter holds_lock (sys_pcs s)) \<le> 1
      \<and> list_all (\<lambda>pc. \<forall>snapshot. pc = Locked snapshot
                        \<longrightarrow> snapshot = flight_by_id (sys_db s) fid) (sys_pcs s)
      \<and> list_all (\<lambda>pc. is_finished pc \<longrightarrow> is_held pc \<or> is_no_seats pc) (sys_pcs s))"

text \<open>How many steps the requests still have to take.\<close>

definition steps_left :: "hold_pc \<Rightarrow> nat" where
  "steps_left pc = (case pc of Started \<Rightarrow> 3 | Waiting \<Rightarrow> 2 | Locked snapshot \<Rightarrow> 1
                    | Finished r \<Rightarrow> 0)"

definition flight3 :: flight where
  "flight3 = \<lparr>flight_id = 1, base_fare = 3000, seats_available = 1, total_seats = 2,
              departure_date_time = Aware 86400\<rparr>"

definition db_last_seat :: database where
  "db_last_seat = \<lparr>Flights = [flight3], Passengers = [], Bookings = [], FareHistory = [],
                   Passengers_auto_increment = 1, Bookings_auto_increment = 1\<rparr>"

definition flight3_naive :: flight where
  "flight3_naive = \<lparr>flight_id = 1, base_fare = 3000, seats_available = 1, total_seats = 2,
                    departure_date_time = Naive 86400\<rparr>"

definition db_last_seat_naive :: database where
  "db_last_seat_naive =
     \<lparr>Flights = [flight3_naive], Passengers = [], Bookings = [], FareHistory = [],
      Passengers_auto_increment = 1, Bookings_auto_increment = 1\<rparr>"

definition zero_clock :: "nat \<Rightarrow> real" where
  "zero_clock t = 0"

definition no_thread_faults :: "nat \<Rightarrow> nat \<Rightarrow> bool" where
  "no_thread_faults t k = False"

definition race_schedule :: "nat list" where
  "race_schedule = [0, 1, 1, 0, 1, 0, 0]"

definition race_on_naive :: hold_system where
  "race_on_naive =
     run_schedule zero_clock zero_clock no_thread_faults [alice, bob] race_schedule
       (launch db_last_seat_naive [alice, bob])"

section \<open>Verified properties\<close>

subsection \<open>Pricing\<close>

text \<open>
  Claim C9 as stated: the price is a function of the explicit arguments alone, the current
  time being one of them. The code has no such parameter and reads the clock itself: the
  same five arguments give 1550 one day before departure and 900 thirty-one days before.
\<close>

theorem price_not_pure_counterexample:
  "calculate_dynamic_price 0 0 1000 50 100 (Aware 86400) (Some 0)
     \<noteq> calculate_dynamic_price (- 2592000) 0 1000 50 100 (Aware 86400) (Some 0)
   \<and> calculate_dynamic_price 0 0 1000 50 100 (Aware 86400) (Some 0) = Inr 1550
   \<and> calculate_dynamic_price (- 2592000) 0 1000 50 100 (Aware 86400) (Some 0) = Inr 900"
  by (simp add: calculate_dynamic_price_def datetime_sub_def py_round_def)

text \<open>
  Claim C9, amended: with an explicit demand signal the price (or the exception) does not
  depend on the random draw, and it depends on the clock reading only through the time
  left to departure; two calls that read the same clock return the same. A naive
  departure time makes the call raise whatever the other arguments.
\<close>

theorem price_given_clock_and_demand:
  "calculate_dynamic_price now u1 fare seats cap dep (Some d)
     = calculate_dynamic_price now u2 fare seats cap dep (Some d)
   \<and> calculate_dynamic_price now u1 fare seats cap (Aware t) (Some d)
     = calculate_dynamic_price 0 u2 fare seats cap (Aware (t - now)) (Some d)
   \<and> calculate_dynamic_price now u1 fare seats cap (Naive t) sd = Inl TypeError"
  by (simp only: calculate_dynamic_price_def datetime_sub_def option.case diff_zero simp_thms
      prod.case datetime.case sum.case Let_def)

subsection \<open>Starting a booking\<close>

declare str_nat.simps [simp del]

text \<open>
  Claim C4 at a failing input: flight 1 exists and has both of its two seats available,
  and its departure time is naive, as the declared driver returns it. The hold is not
  granted: the price computation raises inside the transaction, the request is answered
  500, no booking is added and no seat is taken. (The two rejections of the claim and
  the rollback are as the claim says: a missing flight is answered 404, a flight without
  seats 409, a statement failing after the insert leaves the database as it was; and with
  an aware departure time the same request is granted.)
\<close>

theorem start_booking_fails_on_naive_departure:
  "map flight_id (Flights db_naive) = [1] \<and> req_flight_id alice = 1
   \<and> map seats_available (Flights db_naive) = [2]
   \<and> start_booking no_faults 0 0 db_naive alice
       = (db_naive, Inl (HTTPException 500 ''Could not start booking''))
   \<and> start_booking no_faults 0 0 (db_naive\<lparr>Flights := []\<rparr>) alice
       = (db_naive\<lparr>Flights := []\<rparr>, Inl (HTTPException 404 ''Flight not found''))
   \<and> start_booking no_faults 0 0 (db_naive\<lparr>Flights := [flight_naive\<lparr>seats_available := 0\<rparr>]\<rparr>) alice
       = (db_naive\<lparr>Flights := [flight_naive\<lparr>seats_available := 0\<rparr>]\<rparr>,
          Inl (HTTPException 409 ''No seats available''))
   \<and> start_booking (fails_at 6) 0 0 db0 alice
       = (db0, Inl (HTTPException 500 ''Could not start booking''))
   \<and> map status (Bookings (fst (start_booking no_faults 0 0 db0 alice))) = [PENDING]
   \<and> map seats_available (Flights (fst (start_booking no_faults 0 0 db0 alice))) = [1]"
  by code_simp

subsection \<open>Overlapping payments and cancellations\<close>

text \<open>
  Claim C5 at a failing input: two payments of the pending booking 1 that overlap. Both
  requests pass the status test, which is made before the transaction on an unlocked
  read and not repeated under the lock; the transaction of the first confirms the
  booking and the transaction of the second, a failed payment, is answered 200 as well,
  cancels the confirmed booking and releases its seat. Paying twice has succeeded twice.
  (Served one after the other, the second payment is answered 400.)
\<close>

theorem overlapping_payments_both_succeed:
  "confirm_payment_read db_pending pay_ok = Inr booking1
   \<and> confirm_payment_read db_pending pay_fail = Inr booking1
   \<and> answer_status first_pay = Inr CONFIRMED
   \<and> answer_status second_pay = Inr CANCELLED
   \<and> map status (Bookings (fst (finish db_pending first_pay))) = [CONFIRMED]
   \<and> map status (Bookings (run_steps db_pending overlapping_pays)) = [CANCELLED]
   \<and> map payment_status (Bookings (run_steps db_pending overlapping_pays)) = [FAILED]
   \<and> map pnr (Bookings (run_steps db_pending overlapping_pays)) = [Some ''ABCDEF'']
   \<and> map seats_available (Flights (run_steps db_pending overlapping_pays)) = [2]
   \<and> snd (confirm_payment no_faults 0 id 6 (fst (finish db_pending first_pay)) pay_fail)
       = Inl (HTTPException 400 ''Booking not in PENDING state (current: CONFIRMED)'')"
  by code_simp

text \<open>
  Claim C6 at a failing input: two cancellations of the confirmed booking 1 that overlap.
  Both requests find the booking not yet cancelled, on the unlocked read made before the
  transaction; both transactions then run, both are answered 200, and the flight, which
  had one of its two seats available, ends with three. The second cancellation is not
  rejected. (Served one after the other, it is answered 400.)
\<close>

theorem overlapping_cancellations_both_succeed:
  "cancel_booking_read raw_id db_confirmed cancel_code = Inr booking1_confirmed
   \<and> answer_status first_cancel = Inr CANCELLED
   \<and> answer_status second_cancel = Inr CANCELLED
   \<and> map seats_available (Flights db_confirmed) = [1]
   \<and> map total_seats (Flights db_confirmed) = [2]
   \<and> map seats_available (Flights (fst (finish db_confirmed first_cancel))) = [2]
   \<and> map seats_available
        (Flights (fst (finish (fst (finish db_confirmed first_cancel)) second_cancel))) = [3]
   \<and> snd (cancel_booking no_faults raw_id (fst (finish db_confirmed first_cancel)) cancel_code)
       = Inl (HTTPException 400 ''Booking already cancelled'')"
  by code_simp

subsection \<open>Concurrent holds on a flight as the driver returns it\<close>

text \<open>
  Claim C3 at a failing input: two holds launched at once against flight 1, which has
  exactly one seat and, as the declared driver returns it, a naive departure time. The
  row lock does serialise the two transactions, but in each the price computation raises:
  both requests are answered 500, none is granted, none is rejected for lack of seats,
  and the seat count stays at 1 instead of reaching 0. This is the defect of claim C4.
\<close>

theorem concurrent_holds_fail_on_naive_departure:
  "map seats_available (Flights db_last_seat_naive) = [1]
   \<and> length [alice, bob] = 2
   \<and> list_all is_finished (sys_pcs race_on_naive)
   \<and> length (filter is_held (sys_pcs race_on_naive)) = 0
   \<and> length (filter is_no_seats (sys_pcs race_on_naive)) = 0
   \<and> length (filter is_server_error (sys_pcs race_on_naive)) = 2
   \<and> map seats_available (Flights (sys_db race_on_naive)) = [1]
   \<and> Bookings (sys_db race_on_naive) = []"
  by code_simp

subsection \<open>Releasing a seat after a simulator pass\<close>

text \<open>
  Claim C1 at a failing history: a flight with two seats, both available; one hold; a
  simulator pass that draws +1 (clamped to the capacity, so the count is 2 again); then a
  cancellation, or a failed payment, of the held booking. The release adds one seat
  without looking at the capacity, and the flight shows 3 available seats out of 2. The
  same happens from a database that already holds the pending booking.
\<close>

theorem release_after_simulator_exceeds_capacity:
  "map seats_available (Flights db0) = [2] \<and> map total_seats (Flights db0) = [2]
   \<and> map seats_available (Flights (run raw_id db0 history_hold_tick_cancel)) = [3]
   \<and> map total_seats (Flights (run raw_id db0 history_hold_tick_cancel)) = [2]
   \<and> map seats_available (Flights (run raw_id db0 history_hold_tick_payfail)) = [3]
   \<and> map total_seats (Flights (run raw_id db0 history_hold_tick_payfail)) = [2]
   \<and> map seats_available (Flights db_pending) = [1]
   \<and> map total_seats (Flights db_pending) = [2]
   \<and> map seats_available (Flights (run raw_id db_pending history_tick_cancel)) = [3]
   \<and> map total_seats (Flights (run raw_id db_pending history_tick_cancel)) = [2]
   \<and> map seats_available (Flights (run raw_id db_pending history_tick_payfail)) = [3]
   \<and> map total_seats (Flights (run raw_id db_pending history_tick_payfail)) = [2]"
  by code_simp

subsection \<open>What each transaction does to the tables\<close>

lemma find_map_same:
  assumes "\<And>x. P (g x) = P x"
  shows "find P (map g xs) = map_option g (find P xs)"
  using assms by (induction xs) auto

lemma find_SomeD: "find P xs = Some x \<Longrightarrow> P x \<and> x \<in> set xs"
  by (induction xs) (auto split: if_splits)

lemma booking_by_id_SomeD: "booking_by_id db k = Some b \<Longrightarrow> booking_id b = k"
  unfolding booking_by_id_def by (drule find_SomeD) simp

lemma booking_by_id_mem: "booking_by_id db k = Some b \<Longrightarrow> b \<in> set (Bookings db)"
  unfolding booking_by_id_def by (simp add: find_SomeD)

lemma finish_cases:
  assumes "finish db r = (db', a)"
  shows "db' = db \<or> (\<exists>resp. r = Inr (db', resp))"
  using assms unfolding finish_def by (auto split: sum.splits)

lemma start_booking_insert_effect:
  assumes "start_booking_insert fails now u db1 req locked seat pid = Inr (db', resp)"
  shows "\<exists>b. Bookings db' = Bookings db1 @ [b] \<and> status b = PENDING \<and> pnr b = None
         \<and> b_flight_id b = req_flight_id req \<and> booking_id b = Bookings_auto_increment db1
         \<and> Bookings_auto_increment db' = Bookings_auto_increment db1 + 1
         \<and> Flights db' = add_seats (req_flight_id req) (- 1) (Flights db1)"
  using assms unfolding start_booking_insert_def raising_def Let_def
  by (auto split: if_splits sum.splits)

lemma start_booking_effect:
  assumes "start_booking fails now u db req = (db', r)"
  shows "db' = db \<or>
    (\<exists>b. Bookings db' = Bookings db @ [b] \<and> status b = PENDING \<and> pnr b = None
         \<and> b_flight_id b = req_flight_id req \<and> booking_id b = Bookings_auto_increment db
         \<and> Bookings_auto_increment db' = Bookings_auto_increment db + 1
         \<and> Flights db' = add_seats (req_flight_id req) (- 1) (Flights db))"
proof (cases "flight_by_id db (req_flight_id req)")
  case None
  with assms show ?thesis by (simp add: start_booking_def)
next
  case (Some locked)
  with assms have "finish db (start_booking_txn fails now u db req) = (db', r)"
    by (simp add: start_booking_def)
  from finish_cases [OF this] show ?thesis
  proof
    assume "db' = db"
    then show ?thesis by simp
  next
    assume "\<exists>resp. start_booking_txn fails now u db req = Inr (db', resp)"
    then obtain resp where "start_booking_txn fails now u db req = Inr (db', resp)" by blast
    with Some have l: "start_booking_locked fails now u db req locked = Inr (db', resp)"
      unfolding start_booking_txn_def raising_def by (simp split: if_splits)
    then obtain db1 seat pid where
      i: "start_booking_insert fails now u db1 req locked seat pid = Inr (db', resp)"
      and d: "Bookings db1 = Bookings db" "Bookings_auto_increment db1 = Bookings_auto_increment db"
        "Flights db1 = Flights db"
      unfolding start_booking_locked_def raising_def Let_def
      by (auto split: if_splits option.splits)
    from start_booking_insert_effect [OF i] d show ?thesis by simp
  qed
qed

lemma pay_txn_effect:
  assumes "finish db (confirm_payment_txn fails rng now db req bk success) = (db', a)"
  shows "db' = db \<or>
    (Bookings_auto_increment db' = Bookings_auto_increment db
     \<and> (success \<and> (\<exists>code. Bookings db' =
              map (\<lambda>b. if booking_id b = req_booking_id req
                        then b\<lparr>status := CONFIRMED, pnr := Some code, payment_status := PAID,
                               booking_date := now\<rparr> else b) (Bookings db))
            \<and> Flights db' = Flights db
        \<or> \<not> success \<and> Bookings db' =
              map (\<lambda>b. if booking_id b = req_booking_id req
                        then b\<lparr>status := CANCELLED, payment_status := FAILED,
                               booking_date := now\<rparr> else b) (Bookings db)
            \<and> Flights db' = add_seats (b_flight_id bk) 1 (Flights db)))"
proof -
  from finish_cases [OF assms] show ?thesis
  proof
    assume "db' = db"
    then show ?thesis by simp
  next
    assume "\<exists>resp. confirm_payment_txn fails rng now db req bk success = Inr (db', resp)"
    then obtain resp where
      "confirm_payment_txn fails rng now db req bk success = Inr (db', resp)" by blast
    then show ?thesis
      unfolding confirm_payment_txn_def raising_def Let_def
      by (cases success) (auto split: if_splits option.splits)
  qed
qed

lemma cancel_txn_effect:
  assumes "finish db (cancel_booking_txn fails db bk) = (db', a)"
  shows "db' = db \<or>
    (Bookings_auto_increment db' = Bookings_auto_increment db
     \<and> Bookings db' =
          map (\<lambda>b. if booking_id b = booking_id bk then b\<lparr>status := CANCELLED\<rparr> else b)
            (Bookings db)
     \<and> Flights db' = add_seats (b_flight_id bk) 1 (Flights db))"
proof -
  from finish_cases [OF assms] show ?thesis
  proof
    assume "db' = db"
    then show ?thesis by simp
  next
    assume "\<exists>resp. cancel_booking_txn fails db bk = Inr (db', resp)"
    then obtain resp where "cancel_booking_txn fails db bk = Inr (db', resp)" by blast
    then show ?thesis
      unfolding cancel_booking_txn_def raising_def Let_def
      by (auto split: if_splits option.splits)
  qed
qed

lemma confirm_payment_effect:
  assumes "confirm_payment fails c rng now db req = (db', r)"
  shows "db' = db \<or>
    (\<exists>bk. bk \<in> set (Bookings db) \<and> booking_id bk = req_booking_id req \<and> status bk = PENDING
       \<and> Bookings_auto_increment db' = Bookings_auto_increment db
       \<and> ((\<exists>code. Bookings db' =
              map (\<lambda>b. if booking_id b = booking_id bk
                        then b\<lparr>status := CONFIRMED, pnr := Some code, payment_status := PAID,
                               booking_date := now\<rparr> else b) (Bookings db))
            \<and> Flights db' = Flights db
          \<or> Bookings db' =
              map (\<lambda>b. if booking_id b = booking_id bk
                        then b\<lparr>status := CANCELLED, payment_status := FAILED,
                               booking_date := now\<rparr> else b) (Bookings db)
            \<and> Flights db' = add_seats (b_flight_id bk) 1 (Flights db)))"
proof (cases "confirm_payment_read db req")
  case (Inl e)
  with assms show ?thesis by (simp add: confirm_payment_def)
next
  case (Inr bk)
  then have bk: "booking_by_id db (req_booking_id req) = Some bk" "status bk = PENDING"
    unfolding confirm_payment_read_def by (auto split: option.splits if_splits)
  note id = booking_by_id_SomeD [OF bk(1)] and mem = booking_by_id_mem [OF bk(1)]
  from assms Inr
  have "finish db (confirm_payment_txn fails rng now db req bk (pay_outcome c req)) = (db', r)"
    by (simp add: confirm_payment_def)
  from pay_txn_effect [OF this]
  have e: "db' = db \<or>
    (Bookings_auto_increment db' = Bookings_auto_increment db
       \<and> ((\<exists>code. Bookings db' =
              map (\<lambda>b. if booking_id b = booking_id bk
                        then b\<lparr>status := CONFIRMED, pnr := Some code, payment_status := PAID,
                               booking_date := now\<rparr> else b) (Bookings db))
            \<and> Flights db' = Flights db
          \<or> Bookings db' =
              map (\<lambda>b. if booking_id b = booking_id bk
                        then b\<lparr>status := CANCELLED, payment_status := FAILED,
                               booking_date := now\<rparr> else b) (Bookings db)
            \<and> Flights db' = add_seats (b_flight_id bk) 1 (Flights db)))"
    unfolding id [symmetric] by blast
  then show ?thesis
  proof
    assume "db' = db"
    then show ?thesis by simp
  next
    assume "Bookings_auto_increment db' = Bookings_auto_increment db
       \<and> ((\<exists>code. Bookings db' =
              map (\<lambda>b. if booking_id b = booking_id bk
                        then b\<lparr>status := CONFIRMED, pnr := Some code, payment_status := PAID,
                               booking_date := now\<rparr> else b) (Bookings db))
            \<and> Flights db' = Flights db
          \<or> Bookings db' =
              map (\<lambda>b. if booking_id b = booking_id bk
                        then b\<lparr>status := CANCELLED, payment_status := FAILED,
                               booking_date := now\<rparr> else b) (Bookings db)
            \<and> Flights db' = add_seats (b_flight_id bk) 1 (Flights db))"
    with bk(2) id mem show ?thesis
      by (intro disjI2 exI [of _ bk]) simp
  qed
qed

lemma cancel_booking_effect:
  assumes "cancel_booking fails sql_id db req = (db', r)"
  shows "db' = db \<or>
    (\<exists>bk. bk \<in> set (Bookings db) \<and> status bk \<noteq> CANCELLED
       \<and> Bookings_auto_increment db' = Bookings_auto_increment db
       \<and> Bookings db' =
            map (\<lambda>b. if booking_id b = booking_id bk then b\<lparr>status := CANCELLED\<rparr> else b)
              (Bookings db)
       \<and> Flights db' = add_seats (b_flight_id bk) 1 (Flights db))"
proof (cases "cancel_booking_read sql_id db req")
  case (Inl e)
  with assms show ?thesis by (simp add: cancel_booking_def)
next
  case (Inr bk)
  then have bk: "bk \<in> set (Bookings db)" "status bk \<noteq> CANCELLED"
    unfolding cancel_booking_read_def booking_by_pnr_or_id_def
    by (auto split: option.splits if_splits dest: find_SomeD)
  from assms Inr have "finish db (cancel_booking_txn fails db bk) = (db', r)"
    by (simp add: cancel_booking_def)
  from cancel_txn_effect [OF this] bk show ?thesis by auto
qed

lemma simulate_flight_Bookings:
  "simulate_flight d f db = Inr db' \<Longrightarrow>
     Bookings db' = Bookings db \<and> Bookings_auto_increment db' = Bookings_auto_increment db"
  unfolding simulate_flight_def Let_def by (auto split: if_splits sum.splits)

lemma simulate_flights_Bookings:
  "simulate_flights draws i fs db = Inr db' \<Longrightarrow>
     Bookings db' = Bookings db \<and> Bookings_auto_increment db' = Bookings_auto_increment db"
proof (induction fs arbitrary: i db)
  case Nil
  then show ?case by simp
next
  case (Cons f fs)
  then show ?case
    by (auto split: sum.splits dest!: simulate_flight_Bookings)
qed

lemma simulate_market_tick_Bookings:
  "Bookings (fst (simulate_market_tick draws db)) = Bookings db
   \<and> Bookings_auto_increment (fst (simulate_market_tick draws db)) = Bookings_auto_increment db"
  unfolding simulate_market_tick_def
  by (auto split: sum.splits dest: simulate_flights_Bookings)

lemma run_Nil [simp]: "run sql_id db [] = db"
  by (simp add: run_def)

lemma run_Cons [simp]: "run sql_id db (op # ops) = run sql_id (apply_operation sql_id db op) ops"
  by (simp add: run_def)

lemma run_steps_Nil [simp]: "run_steps db [] = db"
  by (simp add: run_steps_def)

lemma run_steps_Cons [simp]: "run_steps db (st # sts) = run_steps (apply_step db st) sts"
  by (simp add: run_steps_def)

lemma run_steps_append: "run_steps db (xs @ ys) = run_steps (run_steps db xs) ys"
  by (simp add: run_steps_def)

subsection \<open>Confirmation codes and status\<close>

lemma pnr_matches_status_step:
  assumes "pnr_matches_status db"
  shows "pnr_matches_status (apply_step db st)"
proof (cases st)
  case (Hold_step fails now u req)
  obtain db' r where e: "start_booking fails now u db req = (db', r)"
    by (cases "start_booking fails now u db req")
  from start_booking_effect [OF e] assms show ?thesis
    by (auto simp: Hold_step apply_step_def e pnr_matches_status_def)
next
  case (Pay_step fails rng now req bk success)
  obtain db' a where e: "finish db (confirm_payment_txn fails rng now db req bk success) = (db', a)"
    by (cases "finish db (confirm_payment_txn fails rng now db req bk success)")
  from pay_txn_effect [OF e] assms show ?thesis
    by (auto simp: Pay_step apply_step_def e pnr_matches_status_def list_all_iff)
next
  case (Cancel_step fails bk)
  obtain db' a where e: "finish db (cancel_booking_txn fails db bk) = (db', a)"
    by (cases "finish db (cancel_booking_txn fails db bk)")
  from cancel_txn_effect [OF e] assms show ?thesis
    by (auto simp: Cancel_step apply_step_def e pnr_matches_status_def list_all_iff)
next
  case (Tick_step draws)
  with assms simulate_market_tick_Bookings [of draws db] show ?thesis
    unfolding apply_step_def pnr_matches_status_def by simp
qed

lemma pnr_matches_status_steps:
  "pnr_matches_status db \<Longrightarrow> pnr_matches_status (run_steps db sts)"
  by (induction sts arbitrary: db) (simp_all add: pnr_matches_status_step)

text \<open>A request served alone is its read followed, if the read lets it, by its transaction.\<close>

lemma apply_operation_as_steps:
  "\<exists>sts. apply_operation sql_id db op = run_steps db sts"
proof (cases op)
  case (Hold fails now u req)
  have "apply_operation sql_id db op = run_steps db [Hold_step fails now u req]"
    by (simp add: Hold apply_operation_def apply_step_def)
  then show ?thesis by blast
next
  case (Pay fails c rng now req)
  show ?thesis
  proof (cases "confirm_payment_read db req")
    case (Inl e)
    then have "apply_operation sql_id db op = run_steps db []"
      by (simp add: Pay apply_operation_def confirm_payment_def)
    then show ?thesis by blast
  next
    case (Inr bk)
    then have "apply_operation sql_id db op
        = run_steps db [Pay_step fails rng now req bk (pay_outcome c req)]"
      by (simp add: Pay apply_operation_def confirm_payment_def apply_step_def)
    then show ?thesis by blast
  qed
next
  case (Cancel fails req)
  show ?thesis
  proof (cases "cancel_booking_read sql_id db req")
    case (Inl e)
    then have "apply_operation sql_id db op = run_steps db []"
      by (simp add: Cancel apply_operation_def cancel_booking_def)
    then show ?thesis by blast
  next
    case (Inr bk)
    then have "apply_operation sql_id db op = run_steps db [Cancel_step fails bk]"
      by (simp add: Cancel apply_operation_def cancel_booking_def apply_step_def)
    then show ?thesis by blast
  qed
next
  case (Tick draws)
  have "apply_operation sql_id db op = run_steps db [Tick_step draws]"
    by (simp add: Tick apply_operation_def apply_step_def)
  then show ?thesis by blast
qed

lemma run_as_steps: "\<exists>sts. run sql_id db ops = run_steps db sts"
proof (induction ops arbitrary: db)
  case Nil
  have "run sql_id db [] = run_steps db []" by simp
  then show ?case by blast
next
  case (Cons op ops)
  from apply_operation_as_steps [of sql_id db op] obtain xs where
    x: "apply_operation sql_id db op = run_steps db xs" by blast
  from Cons [of "run_steps db xs"] obtain ys where
    "run sql_id (run_steps db xs) ops = run_steps (run_steps db xs) ys" by blast
  with x have "run sql_id db (op # ops) = run_steps db (xs @ ys)"
    by (simp add: run_steps_append)
  then show ?case by blast
qed

text \<open>
  Claim C7, amended. Start from a database in which every confirmed booking has a
  confirmation code and no pending booking has one (an empty Bookings table, say). Then
  the same holds after any sequence of transactions of holds, payments and cancellations
  and of simulator passes, whatever booking row a payment or a cancellation read before
  its transaction, that is, however the requests overlap; in particular after any history
  of requests served one at a time. Nothing is promised for a cancelled booking.
\<close>

theorem confirmed_has_code_pending_has_none:
  assumes "pnr_matches_status db"
  shows "pnr_matches_status (run_steps db sts) \<and> pnr_matches_status (run sql_id db ops)"
proof
  show "pnr_matches_status (run_steps db sts)"
    using assms by (rule pnr_matches_status_steps)
  from run_as_steps [of sql_id db ops] obtain xs where "run sql_id db ops = run_steps db xs"
    by blast
  with pnr_matches_status_steps [OF assms, of xs]
  show "pnr_matches_status (run sql_id db ops)" by simp
qed

text \<open>
  Claim C7 as stated: a booking has a confirmation code if and only if it is CONFIRMED.
  Hold, pay successfully, cancel by the code: the booking is CANCELLED and still carries
  its code, because \<^verbatim>\<open>cancel_booking\<close> updates the status column only.
\<close>

theorem cancelled_keeps_code_counterexample:
  "map status (Bookings (run raw_id db0 history_confirm_cancel)) = [CANCELLED]
   \<and> map pnr (Bookings (run raw_id db0 history_confirm_cancel)) = [Some ''ABCDEF'']"
  by code_simp

lemma examples_match_status:
  "pnr_matches_status db0 \<and> pnr_matches_status db_pending"
  by code_simp

lemma history_confirm_cancel_statuses:
  "map status (Bookings (run raw_id db0 [Hold no_faults 0 0 alice, Pay no_faults 0 id 5 pay_ok]))
     = [CONFIRMED]
   \<and> map pnr (Bookings (run raw_id db0 [Hold no_faults 0 0 alice, Pay no_faults 0 id 5 pay_ok]))
     = [Some ''ABCDEF'']
   \<and> map status (Bookings (run_steps db_pending overlapping_pays)) = [CANCELLED]"
  by code_simp

theorem confirmed_has_code_pending_has_none_witness:
  "pnr_matches_status db0 \<and> pnr_matches_status db_pending
   \<and> pnr_matches_status (run_steps db_pending overlapping_pays)
   \<and> pnr_matches_status
        (run raw_id db0 [Hold no_faults 0 0 alice, Pay no_faults 0 id 5 pay_ok])
   \<and> map status (Bookings (run raw_id db0 [Hold no_faults 0 0 alice, Pay no_faults 0 id 5 pay_ok]))
     = [CONFIRMED]
   \<and> map pnr (Bookings (run raw_id db0 [Hold no_faults 0 0 alice, Pay no_faults 0 id 5 pay_ok]))
     = [Some ''ABCDEF'']
   \<and> map status (Bookings (run_steps db_pending overlapping_pays)) = [CANCELLED]"
proof -
  from examples_match_status have 0: "pnr_matches_status db0" and 1: "pnr_matches_status db_pending"
    by simp_all
  from confirmed_has_code_pending_has_none [OF 1, of overlapping_pays]
  have 2: "pnr_matches_status (run_steps db_pending overlapping_pays)" by simp
  from confirmed_has_code_pending_has_none [OF 0, of _ raw_id
      "[Hold no_faults 0 0 alice, Pay no_faults 0 id 5 pay_ok]"]
  have 3: "pnr_matches_status
        (run raw_id db0 [Hold no_faults 0 0 alice, Pay no_faults 0 id 5 pay_ok])" by simp
  from 0 1 2 3 history_confirm_cancel_statuses show ?thesis by simp
qed

subsection \<open>Seat counts and bookings\<close>

lemma map_update_absent:
  "k \<notin> booking_id ` set bs \<Longrightarrow> map (\<lambda>b. if booking_id b = k then g b else b) bs = bs"
  by (induction bs) auto

lemma filter_count_update:
  assumes "distinct (map booking_id bs)" and "bk \<in> set bs"
  shows "int (length (filter P (map (\<lambda>b. if booking_id b = booking_id bk then g b else b) bs)))
       = int (length (filter P bs)) - (if P bk then 1 else 0) + (if P (g bk) then 1 else 0)"
  using assms
proof (induction bs)
  case Nil
  then show ?case by simp
next
  case (Cons x xs)
  show ?case
  proof (cases "x = bk")
    case True
    with Cons.prems have "booking_id bk \<notin> booking_id ` set xs" by auto
    then have "map (\<lambda>b. if booking_id b = booking_id bk then g b else b) xs = xs"
      by (rule map_update_absent)
    with True show ?thesis by simp
  next
    case False
    with Cons.prems have mem: "bk \<in> set xs" by simp
    with Cons.prems have "booking_id x \<noteq> booking_id bk" by auto
    moreover from Cons.prems have "distinct (map booking_id xs)" by simp
    ultimately show ?thesis using Cons.IH [OF _ mem] by (auto split: if_splits)
  qed
qed

lemma active_bookings_update:
  assumes "distinct (map booking_id (Bookings db))" and "bk \<in> set (Bookings db)"
    and "Bookings db' = map (\<lambda>b. if booking_id b = booking_id bk then g b else b) (Bookings db)"
  shows "int (active_bookings db' k)
       = int (active_bookings db k)
         - (if b_flight_id bk = k \<and> (status bk = PENDING \<or> status bk = CONFIRMED) then 1 else 0)
         + (if b_flight_id (g bk) = k \<and> (status (g bk) = PENDING \<or> status (g bk) = CONFIRMED)
            then 1 else 0)"
  unfolding active_bookings_def assms(3)
  using filter_count_update [OF assms(1,2),
      of "\<lambda>b. b_flight_id b = k \<and> (status b = PENDING \<or> status b = CONFIRMED)" g]
  by simp

lemma seats_match_add_seats:
  assumes "seats_match_bookings db"
    and "\<And>k. int (active_bookings db' k) = int (active_bookings db k) - (if k = fid then d else 0)"
    and "Flights db' = add_seats fid d (Flights db)"
  shows "seats_match_bookings db'"
  using assms(1) unfolding seats_match_bookings_def assms(3) add_seats_def
  by (auto simp: list_all_iff assms(2))

lemma seats_match_same_flights:
  assumes "seats_match_bookings db"
    and "\<And>k. active_bookings db' k = active_bookings db k"
    and "Flights db' = Flights db"
  shows "seats_match_bookings db'"
  using assms(1) unfolding seats_match_bookings_def assms(3)
  by (simp add: assms(2))

lemma booking_ids_fresh_update:
  assumes "booking_ids_fresh db"
    and "Bookings db' = map (\<lambda>b. if booking_id b = k then g b else b) (Bookings db)"
    and "\<And>b. booking_id (g b) = booking_id b"
    and "Bookings_auto_increment db' = Bookings_auto_increment db"
  shows "booking_ids_fresh db'"
proof -
  have "map booking_id (Bookings db') = map booking_id (Bookings db)"
    unfolding assms(2) by (simp add: assms(3))
  moreover have "list_all (\<lambda>b. booking_id b < Bookings_auto_increment db) (Bookings db')"
    using assms(1) unfolding assms(2) booking_ids_fresh_def
    by (auto simp: list_all_iff assms(3))
  ultimately show ?thesis
    using assms(1,4) unfolding booking_ids_fresh_def by simp
qed

lemma hold_keeps_invariant:
  assumes "booking_ids_fresh db" and "seats_match_bookings db"
    and "start_booking fails now u db req = (db', r)"
  shows "booking_ids_fresh db' \<and> seats_match_bookings db'"
proof -
  from start_booking_effect [OF assms(3)] show ?thesis
  proof
    assume "db' = db"
    with assms show ?thesis by simp
  next
    assume "\<exists>b. Bookings db' = Bookings db @ [b] \<and> status b = PENDING \<and> pnr b = None
         \<and> b_flight_id b = req_flight_id req \<and> booking_id b = Bookings_auto_increment db
         \<and> Bookings_auto_increment db' = Bookings_auto_increment db + 1
         \<and> Flights db' = add_seats (req_flight_id req) (- 1) (Flights db)"
    then obtain b where b: "Bookings db' = Bookings db @ [b]" "status b = PENDING"
      "b_flight_id b = req_flight_id req" "booking_id b = Bookings_auto_increment db"
      "Bookings_auto_increment db' = Bookings_auto_increment db + 1"
      "Flights db' = add_seats (req_flight_id req) (- 1) (Flights db)"
      by blast
    have fresh: "booking_ids_fresh db'"
      using assms(1) unfolding booking_ids_fresh_def b(1) b(5)
      by (auto simp: list_all_iff b(4))
    have "\<And>k. int (active_bookings db' k)
        = int (active_bookings db k) - (if k = req_flight_id req then - 1 else 0)"
      unfolding active_bookings_def b(1) by (simp add: b(2,3))
    from seats_match_add_seats [OF assms(2) this b(6)] fresh show ?thesis by simp
  qed
qed

lemma pay_keeps_invariant:
  assumes "booking_ids_fresh db" and "seats_match_bookings db"
    and "confirm_payment fails c rng now db req = (db', r)"
  shows "booking_ids_fresh db' \<and> seats_match_bookings db'"
proof -
  have d: "distinct (map booking_id (Bookings db))"
    using assms(1) by (simp add: booking_ids_fresh_def)
  from confirm_payment_effect [OF assms(3)] show ?thesis
  proof
    assume "db' = db"
    with assms show ?thesis by simp
  next
    assume "\<exists>bk. bk \<in> set (Bookings db) \<and> booking_id bk = req_booking_id req
       \<and> status bk = PENDING
       \<and> Bookings_auto_increment db' = Bookings_auto_increment db
       \<and> ((\<exists>code. Bookings db' =
              map (\<lambda>b. if booking_id b = booking_id bk
                        then b\<lparr>status := CONFIRMED, pnr := Some code, payment_status := PAID,
                               booking_date := now\<rparr> else b) (Bookings db))
            \<and> Flights db' = Flights db
          \<or> Bookings db' =
              map (\<lambda>b. if booking_id b = booking_id bk
                        then b\<lparr>status := CANCELLED, payment_status := FAILED,
                               booking_date := now\<rparr> else b) (Bookings db)
            \<and> Flights db' = add_seats (b_flight_id bk) 1 (Flights db))"
    then obtain bk where bk: "bk \<in> set (Bookings db)"
      "status bk = PENDING" "Bookings_auto_increment db' = Bookings_auto_increment db"
      and alt: "(\<exists>code. Bookings db' =
              map (\<lambda>b. if booking_id b = booking_id bk
                        then b\<lparr>status := CONFIRMED, pnr := Some code, payment_status := PAID,
                               booking_date := now\<rparr> else b) (Bookings db))
            \<and> Flights db' = Flights db
          \<or> Bookings db' =
              map (\<lambda>b. if booking_id b = booking_id bk
                        then b\<lparr>status := CANCELLED, payment_status := FAILED,
                               booking_date := now\<rparr> else b) (Bookings db)
            \<and> Flights db' = add_seats (b_flight_id bk) 1 (Flights db)"
      by blast
    note mem = bk(1)
    from alt show ?thesis
    proof
      assume "(\<exists>code. Bookings db' =
              map (\<lambda>b. if booking_id b = booking_id bk
                        then b\<lparr>status := CONFIRMED, pnr := Some code, payment_status := PAID,
                               booking_date := now\<rparr> else b) (Bookings db))
            \<and> Flights db' = Flights db"
      then obtain code where u: "Bookings db' =
              map (\<lambda>b. if booking_id b = booking_id bk
                        then b\<lparr>status := CONFIRMED, pnr := Some code, payment_status := PAID,
                               booking_date := now\<rparr> else b) (Bookings db)"
        and f: "Flights db' = Flights db" by blast
      have fresh: "booking_ids_fresh db'"
        by (rule booking_ids_fresh_update [OF assms(1) u _ bk(3)]) simp
      have "\<And>k. active_bookings db' k = active_bookings db k"
        using active_bookings_update [OF d mem u] bk(2) by simp
      from seats_match_same_flights [OF assms(2) this f] fresh show ?thesis by simp
    next
      assume "Bookings db' =
              map (\<lambda>b. if booking_id b = booking_id bk
                        then b\<lparr>status := CANCELLED, payment_status := FAILED,
                               booking_date := now\<rparr> else b) (Bookings db)
            \<and> Flights db' = add_seats (b_flight_id bk) 1 (Flights db)"
      then have u: "Bookings db' =
              map (\<lambda>b. if booking_id b = booking_id bk
                        then b\<lparr>status := CANCELLED, payment_status := FAILED,
                               booking_date := now\<rparr> else b) (Bookings db)"
        and f: "Flights db' = add_seats (b_flight_id bk) 1 (Flights db)" by simp_all
      have fresh: "booking_ids_fresh db'"
        by (rule booking_ids_fresh_update [OF assms(1) u _ bk(3)]) simp
      have "\<And>k. int (active_bookings db' k)
          = int (active_bookings db k) - (if k = b_flight_id bk then 1 else 0)"
        using active_bookings_update [OF d mem u] bk(2) by auto
      from seats_match_add_seats [OF assms(2) this f] fresh show ?thesis by simp
    qed
  qed
qed

lemma cancel_keeps_invariant:
  assumes "booking_ids_fresh db" and "seats_match_bookings db"
    and "cancel_booking fails sql_id db req = (db', r)"
  shows "booking_ids_fresh db' \<and> seats_match_bookings db'"
proof -
  have d: "distinct (map booking_id (Bookings db))"
    using assms(1) by (simp add: booking_ids_fresh_def)
  from cancel_booking_effect [OF assms(3)] show ?thesis
  proof
    assume "db' = db"
    with assms show ?thesis by simp
  next
    assume "\<exists>bk. bk \<in> set (Bookings db) \<and> status bk \<noteq> CANCELLED
       \<and> Bookings_auto_increment db' = Bookings_auto_increment db
       \<and> Bookings db' =
            map (\<lambda>b. if booking_id b = booking_id bk then b\<lparr>status := CANCELLED\<rparr> else b)
              (Bookings db)
       \<and> Flights db' = add_seats (b_flight_id bk) 1 (Flights db)"
    then obtain bk where mem: "bk \<in> set (Bookings db)" and st: "status bk \<noteq> CANCELLED"
      and ai: "Bookings_auto_increment db' = Bookings_auto_increment db"
      and u: "Bookings db' =
            map (\<lambda>b. if booking_id b = booking_id bk then b\<lparr>status := CANCELLED\<rparr> else b)
              (Bookings db)"
      and f: "Flights db' = add_seats (b_flight_id bk) 1 (Flights db)"
      by blast
    have fresh: "booking_ids_fresh db'"
      by (rule booking_ids_fresh_update [OF assms(1) u _ ai]) simp
    from st have act: "status bk = PENDING \<or> status bk = CONFIRMED"
      by (cases "status bk") simp_all
    have "\<And>k. int (active_bookings db' k)
        = int (active_bookings db k) - (if k = b_flight_id bk then 1 else 0)"
      using active_bookings_update [OF d mem u] act by auto
    from seats_match_add_seats [OF assms(2) this f] fresh show ?thesis by simp
  qed
qed

lemma invariant_without_simulator:
  assumes "booking_ids_fresh db" and "seats_match_bookings db"
    and "list_all (\<lambda>op. \<not> is_tick op) ops"
  shows "booking_ids_fresh (run sql_id db ops) \<and> seats_match_bookings (run sql_id db ops)"
  using assms
proof (induction ops arbitrary: db)
  case Nil
  then show ?case by simp
next
  case (Cons op ops)
  have "booking_ids_fresh (apply_operation sql_id db op)
      \<and> seats_match_bookings (apply_operation sql_id db op)"
  proof (cases op)
    case (Hold fails now u req)
    then show ?thesis
      using hold_keeps_invariant [OF Cons.prems(1,2), of fails now u req]
      by (cases "start_booking fails now u db req") (simp add: apply_operation_def)
  next
    case (Pay fails c rng now req)
    then show ?thesis
      using pay_keeps_invariant [OF Cons.prems(1,2), of fails c rng now req]
      by (cases "confirm_payment fails c rng now db req") (simp add: apply_operation_def)
  next
    case (Cancel fails req)
    then show ?thesis
      using cancel_keeps_invariant [OF Cons.prems(1,2), of fails sql_id req]
      by (cases "cancel_booking fails sql_id db req") (simp add: apply_operation_def)
  next
    case (Tick draws)
    with Cons.prems(3) show ?thesis by (simp add: is_tick_def)
  qed
  with Cons.IH [of "apply_operation sql_id db op"] Cons.prems(3) show ?case by simp
qed

text \<open>
  Claim C2, amended. Let booking ids be distinct and let every flight have
  \<open>seats_available = total_seats - (number of its pending or confirmed bookings)\<close>.
  Then the same equation holds for every flight after any history of holds, payments and
  cancellations that are served one at a time, each from its first statement to its last
  with no other request and no simulator pass in between. Statements that fail are
  covered: a failed transaction is rolled back.
\<close>

theorem seats_match_bookings_without_simulator:
  assumes "booking_ids_fresh db" and "seats_match_bookings db"
    and "list_all (\<lambda>op. \<not> is_tick op) ops"
  shows "seats_match_bookings (run sql_id db ops)"
  using invariant_without_simulator [OF assms] by simp

text \<open>
  Claim C2 as stated: the equation holds for every flight once the holds, payments and
  cancellations have completed. With the simulator running beside them it does not: from
  a full flight of two seats, a hold, a simulator pass that draws -1 and a successful
  payment leave no seat available although only one booking holds a seat.
\<close>

theorem simulator_breaks_seat_count_counterexample:
  "seats_match_bookings db0
   \<and> map seats_available (Flights (run raw_id db0 history_hold_tick_pay)) = [0]
   \<and> map total_seats (Flights (run raw_id db0 history_hold_tick_pay)) = [2]
   \<and> active_bookings (run raw_id db0 history_hold_tick_pay) 1 = 1
   \<and> \<not> seats_match_bookings (run raw_id db0 history_hold_tick_pay)"
  by code_simp

lemma history_hold_pay_hold_cancel_seats:
  "booking_ids_fresh db0 \<and> seats_match_bookings db0
   \<and> list_all (\<lambda>op. \<not> is_tick op) history_hold_pay_hold_cancel
   \<and> map seats_available (Flights (run raw_id db0 history_hold_pay_hold_cancel)) = [1]
   \<and> map status (Bookings (run raw_id db0 history_hold_pay_hold_cancel))
       = [CANCELLED, PENDING]"
  by code_simp

theorem seats_match_bookings_without_simulator_witness:
  "booking_ids_fresh db0 \<and> seats_match_bookings db0
   \<and> list_all (\<lambda>op. \<not> is_tick op) history_hold_pay_hold_cancel
   \<and> seats_match_bookings (run raw_id db0 history_hold_pay_hold_cancel)
   \<and> map seats_available (Flights (run raw_id db0 history_hold_pay_hold_cancel)) = [1]
   \<and> map status (Bookings (run raw_id db0 history_hold_pay_hold_cancel))
       = [CANCELLED, PENDING]"
proof -
  from history_hold_pay_hold_cancel_seats
  have 1: "booking_ids_fresh db0" and 2: "seats_match_bookings db0"
    and 3: "list_all (\<lambda>op. \<not> is_tick op) history_hold_pay_hold_cancel"
    by simp_all
  from seats_match_bookings_without_simulator [OF 1 2 3, of raw_id]
    history_hold_pay_hold_cancel_seats
  show ?thesis by simp
qed

subsection \<open>A simulator pass\<close>

lemma price_with_aware_departure:
  "\<exists>p. calculate_dynamic_price now u fare seats cap (Aware t) sd = Inr p"
  by (simp add: calculate_dynamic_price_def datetime_sub_def Let_def)

lemma simulate_flight_raises:
  "raises d \<Longrightarrow> simulate_flight d f db = Inl ''Simulation error''"
  by (simp add: simulate_flight_def)

lemma simulate_flight_ok:
  assumes "\<not> raises d"
  shows "\<exists>e. simulate_flight d f db =
      Inr (db\<lparr>Flights := map (\<lambda>g. if flight_id g = flight_id f
                                  then g\<lparr>seats_available := nudge d f\<rparr> else g) (Flights db),
              FareHistory := FareHistory db @ [e]\<rparr>)
    \<and> fh_flight_id e = flight_id f \<and> fh_seats_available e = nudge d f
    \<and> reason e = ''simulator''"
proof -
  from price_with_aware_departure obtain p where
    "calculate_dynamic_price (tick_now d) 0 (base_fare f) (nudge d f) (total_seats f)
       (Aware (tick_now d + 86400)) (Some (uniform (- 0.5) 1.0 (demand_draw d))) = Inr p"
    by blast
  with assms show ?thesis
    unfolding simulate_flight_def Let_def nudge_def
    by (intro exI [of _ "\<lparr>fh_flight_id = flight_id f, fh_base_fare = base_fare f,
          fh_dynamic_price = p,
          fh_seats_available =
            max 0 (min (total_seats f)
              (seats_available f + [- 3, - 2, - 1, 0, 1, 2] ! (change_draw d mod 6))),
          fh_total_seats = total_seats f, reason = ''simulator''\<rparr>"]) simp
qed

lemma update_one_row:
  assumes "distinct (map flight_id (pre @ f # post))"
  shows "map (\<lambda>g. if flight_id g = flight_id f then h g else g) (pre @ f # post)
       = pre @ h f # post"
proof -
  from assms have "\<forall>g\<in>set pre \<union> set post. flight_id g \<noteq> flight_id f"
    by (fastforce simp: image_iff)
  then have "map (\<lambda>g. if flight_id g = flight_id f then h g else g) pre = pre"
    and "map (\<lambda>g. if flight_id g = flight_id f then h g else g) post = post"
    by (auto intro: map_idI)
  then show ?thesis by simp
qed

lemma simulate_flights_raises:
  "\<exists>j<length fs. raises (draws (i + j)) \<Longrightarrow>
     simulate_flights draws i fs db = Inl ''Simulation error''"
proof (induction fs arbitrary: i db)
  case Nil
  then show ?case by simp
next
  case (Cons f fs)
  show ?case
  proof (cases "raises (draws i)")
    case True
    then show ?thesis by (simp add: simulate_flight_raises)
  next
    case False
    from Cons.prems obtain j where j: "j < Suc (length fs)" "raises (draws (i + j))" by auto
    with False obtain j' where "j = Suc j'" by (cases j) auto
    with j have "\<exists>j<length fs. raises (draws (Suc i + j))" by auto
    from Cons.IH [OF this] simulate_flight_ok [OF False, where f = f and db = db]
    show ?thesis by auto
  qed
qed

lemma simulate_flights_ok:
  assumes "distinct (map flight_id (pre @ fs))" and "Flights db = pre @ fs"
    and "\<forall>j<length fs. \<not> raises (draws (i + j))"
  shows "\<exists>db' es. simulate_flights draws i fs db = Inr db'
       \<and> Flights db' = pre @ map (nudged draws) (enumerate i fs)
       \<and> FareHistory db' = FareHistory db @ es
       \<and> map fh_flight_id es = map flight_id fs
       \<and> map fh_seats_available es = map seats_available (map (nudged draws) (enumerate i fs))
       \<and> list_all (\<lambda>e. reason e = ''simulator'') es
       \<and> Bookings db' = Bookings db \<and> Passengers db' = Passengers db"
  using assms
proof (induction fs arbitrary: i pre db)
  case Nil
  then show ?case by simp
next
  case (Cons f fs)
  from Cons.prems(3) have nr: "\<not> raises (draws i)" by force
  let ?f' = "f\<lparr>seats_available := nudge (draws i) f\<rparr>"
  from simulate_flight_ok [OF nr, where f = f and db = db] obtain e where
    e: "simulate_flight (draws i) f db =
      Inr (db\<lparr>Flights := map (\<lambda>g. if flight_id g = flight_id f
                                  then g\<lparr>seats_available := nudge (draws i) f\<rparr> else g)
                             (Flights db),
              FareHistory := FareHistory db @ [e]\<rparr>)"
    "fh_flight_id e = flight_id f" "fh_seats_available e = nudge (draws i) f"
    "reason e = ''simulator''"
    by blast
  let ?db1 = "db\<lparr>Flights := pre @ ?f' # fs, FareHistory := FareHistory db @ [e]\<rparr>"
  have upd: "map (\<lambda>g. if flight_id g = flight_id f
                       then g\<lparr>seats_available := nudge (draws i) f\<rparr> else g) (Flights db)
      = pre @ ?f' # fs"
    unfolding Cons.prems(2) by (rule update_one_row [OF Cons.prems(1)])
  have s1: "simulate_flight (draws i) f db = Inr ?db1"
    unfolding e(1) upd by simp
  have d: "distinct (map flight_id ((pre @ [?f']) @ fs))"
    using Cons.prems(1) by simp
  have f1: "Flights ?db1 = (pre @ [?f']) @ fs" by simp
  from Cons.prems(3) have r: "\<forall>j<length fs. \<not> raises (draws (Suc i + j))" by force
  from Cons.IH [OF d f1 r] obtain db' es where
    ih: "simulate_flights draws (Suc i) fs ?db1 = Inr db'"
    "Flights db' = (pre @ [?f']) @ map (nudged draws) (enumerate (Suc i) fs)"
    "FareHistory db' = FareHistory ?db1 @ es"
    "map fh_flight_id es = map flight_id fs"
    "map fh_seats_available es
       = map seats_available (map (nudged draws) (enumerate (Suc i) fs))"
    "list_all (\<lambda>e. reason e = ''simulator'') es"
    "Bookings db' = Bookings ?db1" "Passengers db' = Passengers ?db1"
    by blast
  have n: "nudged draws (i, f) = ?f'" by (simp add: nudged_def)
  show ?case
    apply (rule exI [of _ db'], rule exI [of _ "e # es"])
    using s1 ih e(2,3,4) n by simp
qed

text \<open>
  Claim C10, amended. A pass of the simulator is one unit. When a statement raises for
  some flight of the pass, the handler rolls the whole pass back: the database is as
  before the pass, later flights are not visited, and the error is printed. When nothing
  raises (and flight ids are distinct), the pass commits: every flight has its seat count
  nudged by its draw and clamped to \<open>[0, total_seats]\<close>, one fare-history entry per
  flight is appended, in the order of the flights and with the new seat counts, and
  nothing else changes. Either way the loop goes on: the following pass runs on the
  database the previous pass left, and a failed pass adds its error line to the output.
\<close>

theorem failed_pass_is_rolled_back:
  "((\<exists>i<length (Flights db). raises (draws i)) \<longrightarrow>
      simulate_market_tick draws db = (db, Some ''Simulation error''))
   \<and> (distinct (map flight_id (Flights db)) \<and> (\<forall>i<length (Flights db). \<not> raises (draws i)) \<longrightarrow>
      (\<exists>db' es. simulate_market_tick draws db = (db', None)
         \<and> Flights db' = map (nudged draws) (enumerate 0 (Flights db))
         \<and> FareHistory db' = FareHistory db @ es
         \<and> map fh_flight_id es = map flight_id (Flights db)
         \<and> map fh_seats_available es = map seats_available (Flights db')
         \<and> list_all (\<lambda>e. reason e = ''simulator'') es
         \<and> Bookings db' = Bookings db \<and> Passengers db' = Passengers db))
   \<and> ((\<exists>i<length (Flights (fst (simulate_market n passes db))). raises (passes n i)) \<longrightarrow>
      simulate_market (Suc n) passes db
        = (fst (simulate_market n passes db),
           snd (simulate_market n passes db) @ [''Simulation error'']))
   \<and> fst (simulate_market (Suc (Suc n)) passes db)
       = fst (simulate_market_tick (passes (Suc n))
               (fst (simulate_market_tick (passes n) (fst (simulate_market n passes db)))))"
proof (intro conjI impI)
  assume "\<exists>i<length (Flights db). raises (draws i)"
  then have "simulate_flights draws 0 (Flights db) db = Inl ''Simulation error''"
    using simulate_flights_raises [of "Flights db" draws 0 db] by simp
  then show "simulate_market_tick draws db = (db, Some ''Simulation error'')"
    by (simp add: simulate_market_tick_def)
next
  assume a: "distinct (map flight_id (Flights db)) \<and> (\<forall>i<length (Flights db). \<not> raises (draws i))"
  then have d: "distinct (map flight_id ([] @ Flights db))" and f: "Flights db = [] @ Flights db"
    and r: "\<forall>j<length (Flights db). \<not> raises (draws (0 + j))"
    by simp_all
  from simulate_flights_ok [OF d f r] obtain db' es where
    "simulate_flights draws 0 (Flights db) db = Inr db'"
    "Flights db' = map (nudged draws) (enumerate 0 (Flights db))"
    "FareHistory db' = FareHistory db @ es"
    "map fh_flight_id es = map flight_id (Flights db)"
    "map fh_seats_available es = map seats_available (map (nudged draws) (enumerate 0 (Flights db)))"
    "list_all (\<lambda>e. reason e = ''simulator'') es"
    "Bookings db' = Bookings db" "Passengers db' = Passengers db"
    by auto
  then show "\<exists>db' es. simulate_market_tick draws db = (db', None)
         \<and> Flights db' = map (nudged draws) (enumerate 0 (Flights db))
         \<and> FareHistory db' = FareHistory db @ es
         \<and> map fh_flight_id es = map flight_id (Flights db)
         \<and> map fh_seats_available es = map seats_available (Flights db')
         \<and> list_all (\<lambda>e. reason e = ''simulator'') es
         \<and> Bookings db' = Bookings db \<and> Passengers db' = Passengers db"
    by (intro exI [of _ db'] exI [of _ es]) (simp add: simulate_market_tick_def)
next
  assume a: "\<exists>i<length (Flights (fst (simulate_market n passes db))). raises (passes n i)"
  obtain d1 printed where sm: "simulate_market n passes db = (d1, printed)"
    by (cases "simulate_market n passes db")
  with a have "\<exists>j<length (Flights d1). raises (passes n (0 + j))" by simp
  from simulate_flights_raises [OF this]
  have "simulate_market_tick (passes n) d1 = (d1, Some ''Simulation error'')"
    by (simp add: simulate_market_tick_def)
  with sm show "simulate_market (Suc n) passes db
        = (fst (simulate_market n passes db),
           snd (simulate_market n passes db) @ [''Simulation error''])"
    by simp
next
  show "fst (simulate_market (Suc (Suc n)) passes db)
       = fst (simulate_market_tick (passes (Suc n))
               (fst (simulate_market_tick (passes n) (fst (simulate_market n passes db)))))"
    by (simp add: Let_def split: prod.splits)
qed

text \<open>
  Claim C10 as stated: a failure at one flight leaves the other flights updated and the
  changes already made in place. With two flights whose pass would lower both seat
  counts, a failure at the first flight leaves the second as it was, and a failure at the
  second undoes the first: in both cases the database is the one before the pass.
\<close>

theorem failed_flight_aborts_pass_counterexample:
  "map seats_available (Flights db2) = [2, 5] \<and> FareHistory db2 = []
   \<and> map seats_available (Flights (fst (simulate_market_tick (failing_draw 2) db2))) = [1, 4]
   \<and> simulate_market_tick (failing_draw 0) db2 = (db2, Some ''Simulation error'')
   \<and> simulate_market_tick (failing_draw 1) db2 = (db2, Some ''Simulation error'')"
  by code_simp

lemma db2_facts:
  "(1::nat) < length (Flights db2) \<and> raises (failing_draw 1 1)
   \<and> distinct (map flight_id (Flights db2)) \<and> length (Flights db2) = 2
   \<and> \<not> raises (failing_draw 2 0) \<and> \<not> raises (failing_draw 2 1)
   \<and> FareHistory db2 = []
   \<and> map seats_available (map (nudged (failing_draw 2)) (enumerate 0 (Flights db2))) = [1, 4]
   \<and> simulate_market 0 failing_passes db2 = (db2, [])
   \<and> raises (failing_passes 0 1)"
  by code_simp

theorem failed_pass_is_rolled_back_witness:
  "(1::nat) < length (Flights db2) \<and> raises (failing_draw 1 1)
   \<and> simulate_market_tick (failing_draw 1) db2 = (db2, Some ''Simulation error'')
   \<and> distinct (map flight_id (Flights db2)) \<and> length (Flights db2) = 2
   \<and> \<not> raises (failing_draw 2 0) \<and> \<not> raises (failing_draw 2 1)
   \<and> snd (simulate_market_tick (failing_draw 2) db2) = None
   \<and> map seats_available (Flights (fst (simulate_market_tick (failing_draw 2) db2))) = [1, 4]
   \<and> map fh_seats_available (FareHistory (fst (simulate_market_tick (failing_draw 2) db2)))
       = [1, 4]
   \<and> simulate_market (Suc 0) failing_passes db2 = (db2, [''Simulation error''])"
proof -
  note f = db2_facts
  from f have e: "\<exists>i<length (Flights db2). raises (failing_draw 1 i)" by blast
  from f have h: "distinct (map flight_id (Flights db2))
      \<and> (\<forall>i<length (Flights db2). \<not> raises (failing_draw 2 i))"
    by (simp add: less_Suc_eq numeral_2_eq_2)
  from f have g0: "fst (simulate_market 0 failing_passes db2) = db2" by simp
  from f have "(1::nat) < length (Flights db2) \<and> raises (failing_passes 0 1)" by blast
  then have "\<exists>i<length (Flights db2). raises (failing_passes 0 i)" by blast
  with g0 have g: "\<exists>i<length (Flights (fst (simulate_market 0 failing_passes db2))).
      raises (failing_passes 0 i)" by simp
  from failed_pass_is_rolled_back [of db2 "failing_draw 1"] e
  have 1: "simulate_market_tick (failing_draw 1) db2 = (db2, Some ''Simulation error'')"
    by blast
  from failed_pass_is_rolled_back [of db2 "failing_draw 2"] h
  obtain db' es where t: "simulate_market_tick (failing_draw 2) db2 = (db', None)"
    "Flights db' = map (nudged (failing_draw 2)) (enumerate 0 (Flights db2))"
    "FareHistory db' = FareHistory db2 @ es"
    "map fh_seats_available es = map seats_available (Flights db')"
    by blast
  from t f have 2: "snd (simulate_market_tick (failing_draw 2) db2) = None"
    and 3: "map seats_available (Flights (fst (simulate_market_tick (failing_draw 2) db2)))
      = [1, 4]"
    and 4: "map fh_seats_available
      (FareHistory (fst (simulate_market_tick (failing_draw 2) db2))) = [1, 4]"
    by simp_all
  from failed_pass_is_rolled_back [where db = db2 and n = 0 and passes = failing_passes] g f
  have 5: "simulate_market (Suc 0) failing_passes db2 = (db2, [''Simulation error''])"
    by simp
  from f 1 2 3 4 5 show ?thesis by simp
qed

subsection \<open>Concurrent holds when the price can be computed\<close>

lemma filter_length_update:
  "t < length xs \<Longrightarrow>
     int (length (filter P (xs[t := y])))
       = int (length (filter P xs)) - (if P (xs ! t) then 1 else 0) + (if P y then 1 else 0)"
proof (induction xs arbitrary: t)
  case Nil
  then show ?case by simp
next
  case (Cons x xs)
  show ?case
  proof (cases t)
    case 0
    then show ?thesis by simp
  next
    case (Suc n)
    with Cons.prems have "n < length xs" by simp
    from Cons.IH [OF this] Suc show ?thesis by (simp split: if_splits)
  qed
qed

lemma list_all_update:
  "list_all P xs \<Longrightarrow> P y \<Longrightarrow> list_all P (xs[t := y])"
  using set_update_subset_insert [of xs t y] by (auto simp: list_all_iff)

lemma list_ex_update:
  "list_ex P (xs[t := y]) \<Longrightarrow> P y \<or> list_ex P xs"
  using set_update_subset_insert [of xs t y] by (auto simp: list_ex_iff)

lemma flight_by_id_add_seats:
  "flight_by_id (db\<lparr>Flights := add_seats fid d (Flights db)\<rparr>) fid
     = map_option (\<lambda>f. f\<lparr>seats_available := seats_available f + d\<rparr>) (flight_by_id db fid)"
proof -
  have "find (\<lambda>f. flight_id f = fid) (add_seats fid d fs)
      = map_option (\<lambda>f. f\<lparr>seats_available := seats_available f + d\<rparr>)
          (find (\<lambda>f. flight_id f = fid) fs)" for fs
    unfolding add_seats_def by (induction fs) auto
  then show ?thesis by (simp add: flight_by_id_def)
qed

lemma start_booking_locked_no_seats:
  "seats_available locked \<le> 0 \<Longrightarrow>
     start_booking_locked fails now u db req locked
       = Inl (HTTPException 409 ''No seats available'')"
  by (simp add: start_booking_locked_def)

lemma start_booking_insert_granted:
  assumes nofail: "\<And>k. \<not> fails k"
    and g: "flight_by_id d (req_flight_id req) = Some g"
    and aware: "departure_date_time g = Aware dep"
  shows "\<exists>db' resp. start_booking_insert fails now u d req locked seat pid = Inr (db', resp)
         \<and> flight_by_id db' (req_flight_id req)
             = Some (g\<lparr>seats_available := seats_available g - 1\<rparr>)
         \<and> length (Bookings db') = Suc (length (Bookings d))"
proof -
  obtain p where p: "calculate_dynamic_price now u (base_fare locked) (seats_available locked)
      (total_seats locked) (Aware dep) None = Inr p"
    using price_with_aware_departure by blast
  have f: "flight_by_id (x\<lparr>Flights := add_seats (req_flight_id req) (- 1) (Flights d)\<rparr>)
         (req_flight_id req)
      = Some (g\<lparr>seats_available := seats_available g - 1\<rparr>)" for x :: database
    using flight_by_id_add_seats [where db = d and fid = "req_flight_id req" and d = "- 1"] g
    by (simp add: flight_by_id_def)
  show ?thesis
    unfolding start_booking_insert_def raising_def Let_def
    using nofail g aware p f by simp
qed

lemma start_booking_locked_granted:
  assumes nofail: "\<And>k. \<not> fails k"
    and g: "flight_by_id db (req_flight_id req) = Some g"
    and aware: "departure_date_time g = Aware dep"
    and pos: "0 < seats_available locked"
  shows "\<exists>db' resp. start_booking_locked fails now u db req locked = Inr (db', resp)
         \<and> flight_by_id db' (req_flight_id req)
             = Some (g\<lparr>seats_available := seats_available g - 1\<rparr>)
         \<and> length (Bookings db') = Suc (length (Bookings db))"
proof (cases "find (\<lambda>p. email p = passenger_email req) (Passengers db)")
  case (Some p)
  from start_booking_insert_granted [of fails db req g dep now u locked _ "passenger_id p",
      OF nofail g aware] Some pos nofail
  show ?thesis
    unfolding start_booking_locked_def raising_def Let_def by simp
next
  case None
  let ?d = "db\<lparr>Passengers := Passengers db @
                               [\<lparr>passenger_id = Passengers_auto_increment db,
                                 first_name = passenger_first_name req,
                                 last_name = passenger_last_name req,
                                 email = passenger_email req\<rparr>],
                             Passengers_auto_increment := Passengers_auto_increment db + 1\<rparr>"
  from g have g': "flight_by_id ?d (req_flight_id req) = Some g"
    by (simp add: flight_by_id_def)
  from start_booking_insert_granted [of fails ?d req g dep now u locked _
      "Passengers_auto_increment db", OF nofail g' aware] None pos nofail
  show ?thesis
    unfolding start_booking_locked_def raising_def Let_def by simp
qed

lemma row_locked_iff:
  assumes "length pcs = length reqs" and "list_all (\<lambda>r. req_flight_id r = fid) reqs"
  shows "row_locked reqs pcs fid \<longleftrightarrow> (\<exists>t<length pcs. holds_lock (pcs ! t))"
proof
  assume "row_locked reqs pcs fid"
  then obtain r pc where "(r, pc) \<in> set (zip reqs pcs)" "holds_lock pc"
    unfolding row_locked_def list_ex_iff by auto
  then show "\<exists>t<length pcs. holds_lock (pcs ! t)"
    by (auto simp: in_set_zip)
next
  assume "\<exists>t<length pcs. holds_lock (pcs ! t)"
  then obtain t where t: "t < length pcs" "holds_lock (pcs ! t)" by blast
  with assms have "(reqs ! t, pcs ! t) \<in> set (zip reqs pcs)"
    by (auto simp: in_set_zip)
  moreover from t assms have "req_flight_id (reqs ! t) = fid"
    by (simp add: list_all_length)
  ultimately show "row_locked reqs pcs fid"
    using t unfolding row_locked_def list_ex_iff by auto
qed

lemma hold_invariant_launch:
  assumes "flight_by_id db fid = Some f" and "seats_available f = int K"
    and "departure_date_time f = Aware dep"
  shows "hold_invariant db fid K reqs (launch db reqs)"
  using assms
  by (simp add: hold_invariant_def launch_def holds_lock_def is_held_def is_no_seats_def
      is_finished_def list_all_iff list_ex_iff)

lemma no_lock_filter:
  "(\<forall>t<length pcs. \<not> holds_lock (pcs ! t)) \<Longrightarrow> filter holds_lock pcs = []"
  by (auto simp: filter_empty_conv in_set_conv_nth)

lemma hold_invariant_step:
  assumes inv: "hold_invariant start fid K reqs s"
    and same: "list_all (\<lambda>r. req_flight_id r = fid) reqs"
    and nofail: "\<And>t k. \<not> fails t k"
    and step: "thread_step clock draw fails reqs t s = Some s'"
  shows "hold_invariant start fid K reqs s'"
proof -
  from step have t: "t < length (sys_pcs s)" "t < length reqs"
    unfolding thread_step_def by (auto split: if_splits)
  from inv have len: "length (sys_pcs s) = length reqs"
    by (simp add: hold_invariant_def)
  from inv obtain g where g: "flight_by_id (sys_db s) fid = Some g"
    "seats_available g = int K - int (length (filter is_held (sys_pcs s)))"
    "0 \<le> seats_available g"
    "list_ex is_no_seats (sys_pcs s) \<longrightarrow> seats_available g = 0"
    and "\<exists>dep. departure_date_time g = Aware dep"
    unfolding hold_invariant_def by blast
  then obtain dep where aware: "departure_date_time g = Aware dep" by blast
  from inv have bk: "length (Bookings (sys_db s))
      = length (Bookings start) + length (filter is_held (sys_pcs s))"
    and lk: "length (filter holds_lock (sys_pcs s)) \<le> 1"
    and snap: "list_all (\<lambda>pc. \<forall>snapshot. pc = Locked snapshot
                        \<longrightarrow> snapshot = flight_by_id (sys_db s) fid) (sys_pcs s)"
    and fin: "list_all (\<lambda>pc. is_finished pc \<longrightarrow> is_held pc \<or> is_no_seats pc) (sys_pcs s)"
    unfolding hold_invariant_def by blast+
  from t same have fid: "req_flight_id (reqs ! t) = fid"
    by (simp add: list_all_length)
  note upd = filter_length_update [OF t(1)]
  show ?thesis
  proof (cases "sys_pcs s ! t")
    case Started
    with step t g fid have s': "s' = s\<lparr>sys_pcs := (sys_pcs s)[t := Waiting]\<rparr>"
      unfolding thread_step_def by simp
    have h: "length (filter is_held ((sys_pcs s)[t := Waiting])) = length (filter is_held (sys_pcs s))"
      using upd [of is_held Waiting] Started by (simp add: is_held_def)
    have l: "length (filter holds_lock ((sys_pcs s)[t := Waiting])) = length (filter holds_lock (sys_pcs s))"
      using upd [of holds_lock Waiting] Started by (simp add: holds_lock_def)
    have n: "list_ex is_no_seats ((sys_pcs s)[t := Waiting]) \<longrightarrow> seats_available g = 0"
      using g(4) list_ex_update [of is_no_seats "sys_pcs s" t Waiting]
      by (auto simp: is_no_seats_def)
    show ?thesis
      unfolding hold_invariant_def s'
      using len g(1,2,3) aware n bk lk h l
        list_all_update [OF snap, of Waiting t] list_all_update [OF fin, of Waiting t]
      by (simp add: is_finished_def)
  next
    case Waiting
    with step t fid nofail have free: "\<not> row_locked reqs (sys_pcs s) fid"
      and s': "s' = s\<lparr>sys_pcs := (sys_pcs s)[t := Locked (flight_by_id (sys_db s) fid)]\<rparr>"
      unfolding thread_step_def by (auto split: if_splits)
    let ?L = "Locked (flight_by_id (sys_db s) fid)"
    from free row_locked_iff [OF len same] have "filter holds_lock (sys_pcs s) = []"
      by (intro no_lock_filter) simp
    then have l: "length (filter holds_lock ((sys_pcs s)[t := ?L])) \<le> 1"
      using upd [of holds_lock ?L] by (simp split: if_splits)
    have h: "length (filter is_held ((sys_pcs s)[t := ?L])) = length (filter is_held (sys_pcs s))"
      using upd [of is_held ?L] Waiting by (simp add: is_held_def)
    have n: "list_ex is_no_seats ((sys_pcs s)[t := ?L]) \<longrightarrow> seats_available g = 0"
      using g(4) list_ex_update [of is_no_seats "sys_pcs s" t ?L]
      by (auto simp: is_no_seats_def)
    show ?thesis
      unfolding hold_invariant_def s'
      using len g(1,2,3) aware n bk l h
        list_all_update [OF snap, of ?L t] list_all_update [OF fin, of ?L t]
      by (simp add: is_finished_def)
  next
    case (Locked snapshot)
    from snap t Locked have cur: "snapshot = Some g"
      using g(1) by (auto simp: list_all_length)
    have hl: "holds_lock (sys_pcs s ! t)" using Locked by (simp add: holds_lock_def)
    have nolock: "filter holds_lock ((sys_pcs s)[t := y]) = []" if "\<not> holds_lock y" for y
    proof -
      from upd [of holds_lock y] hl that
      have "int (length (filter holds_lock ((sys_pcs s)[t := y])))
          = int (length (filter holds_lock (sys_pcs s))) - 1" by simp
      with lk have "length (filter holds_lock ((sys_pcs s)[t := y])) = 0" by linarith
      then show ?thesis by simp
    qed
    have nosnap: "\<And>y d. \<not> holds_lock y \<Longrightarrow>
        list_all (\<lambda>pc. \<forall>snapshot. pc = Locked snapshot \<longrightarrow> snapshot = flight_by_id d fid)
          ((sys_pcs s)[t := y])"
    proof -
      fix y :: hold_pc and d :: database
      assume "\<not> holds_lock y"
      from nolock [OF this] have "\<forall>pc\<in>set ((sys_pcs s)[t := y]). \<not> holds_lock pc"
        by (simp add: filter_empty_conv)
      then show "list_all (\<lambda>pc. \<forall>snapshot. pc = Locked snapshot \<longrightarrow> snapshot = flight_by_id d fid)
          ((sys_pcs s)[t := y])"
        by (auto simp: list_all_iff holds_lock_def)
    qed
    show ?thesis
    proof (cases "seats_available g \<le> 0")
      case True
      let ?F = "Finished (Inl (HTTPException 409 ''No seats available''))"
      from True have "start_booking_locked (fails t) (clock t) (draw t) (sys_db s) (reqs ! t) g
          = Inl (HTTPException 409 ''No seats available'')"
        by (rule start_booking_locked_no_seats)
      with step t Locked cur have s': "s' = s\<lparr>sys_pcs := (sys_pcs s)[t := ?F]\<rparr>"
        unfolding thread_step_def by simp
      from True g(3) have z: "seats_available g = 0" by simp
      have h: "length (filter is_held ((sys_pcs s)[t := ?F])) = length (filter is_held (sys_pcs s))"
        using upd [of is_held ?F] Locked by (simp add: is_held_def)
      have nl: "\<not> holds_lock ?F" by (simp add: holds_lock_def)
      show ?thesis
        unfolding hold_invariant_def s'
        using len g(1,2,3) aware z bk h nolock [OF nl] nosnap [OF nl, of "sys_db s"]
          list_all_update [OF fin, of ?F t]
        by (simp add: is_no_seats_def)
    next
      case False
      then have pos: "0 < seats_available g" by simp
      from g(1) fid have gt: "flight_by_id (sys_db s) (req_flight_id (reqs ! t)) = Some g"
        by simp
      from start_booking_locked_granted [of "fails t" "sys_db s" "reqs ! t" g dep g
          "clock t" "draw t", OF nofail gt aware pos] fid
      obtain db' resp where r:
        "start_booking_locked (fails t) (clock t) (draw t) (sys_db s) (reqs ! t) g
           = Inr (db', resp)"
        "flight_by_id db' fid = Some (g\<lparr>seats_available := seats_available g - 1\<rparr>)"
        "length (Bookings db') = Suc (length (Bookings (sys_db s)))"
        by auto
      let ?F = "Finished (Inr resp)"
      from step t Locked cur r(1)
      have s': "s' = \<lparr>sys_db = db', sys_pcs = (sys_pcs s)[t := ?F]\<rparr>"
        unfolding thread_step_def by simp
      have h: "int (length (filter is_held ((sys_pcs s)[t := ?F])))
          = int (length (filter is_held (sys_pcs s))) + 1"
        using upd [of is_held ?F] Locked by (simp add: is_held_def)
      then have h': "length (filter is_held ((sys_pcs s)[t := ?F]))
          = Suc (length (filter is_held (sys_pcs s)))" by simp
      have nl: "\<not> holds_lock ?F" by (simp add: holds_lock_def)
      have n: "\<not> list_ex is_no_seats ((sys_pcs s)[t := ?F])"
        using g(4) pos list_ex_update [of is_no_seats "sys_pcs s" t ?F]
        by (auto simp: is_no_seats_def)
      have g': "seats_available (g\<lparr>seats_available := seats_available g - 1\<rparr>)
          = int K - int (length (filter is_held ((sys_pcs s)[t := ?F])))"
        using g(2) h by simp
      show ?thesis
        unfolding hold_invariant_def s'
        using len r(2,3) g' aware pos n bk h' nolock [OF nl] nosnap [OF nl, of db']
          list_all_update [OF fin, of ?F t]
        by (simp add: is_held_def)
    qed
  next
    case (Finished r)
    with step t show ?thesis unfolding thread_step_def by simp
  qed
qed

lemma run_schedule_append:
  "run_schedule clock draw fails reqs (xs @ ys) s
     = run_schedule clock draw fails reqs ys (run_schedule clock draw fails reqs xs s)"
  by (induction xs arbitrary: s) simp_all

lemma hold_invariant_run:
  assumes "hold_invariant start fid K reqs s"
    and "list_all (\<lambda>r. req_flight_id r = fid) reqs"
    and nofail: "\<And>t k. \<not> fails t k"
  shows "hold_invariant start fid K reqs (run_schedule clock draw fails reqs sched s)"
  using assms(1)
proof (induction sched arbitrary: s)
  case Nil
  then show ?case by simp
next
  case (Cons t ts)
  show ?case
  proof (cases "thread_step clock draw fails reqs t s")
    case None
    with Cons show ?thesis by simp
  next
    case (Some s')
    from hold_invariant_step [OF Cons.prems assms(2) nofail Some] Cons.IH Some
    show ?thesis by simp
  qed
qed

lemma split_count:
  "\<forall>x\<in>set xs. (P x \<or> Q x) \<and> \<not> (P x \<and> Q x) \<Longrightarrow>
     length (filter P xs) + length (filter Q xs) = length xs"
  by (induction xs) auto

lemma hold_invariant_final:
  assumes inv: "hold_invariant start fid K reqs s" and less: "K < length reqs"
    and allfin: "list_all is_finished (sys_pcs s)"
  shows "length (filter is_held (sys_pcs s)) = K
       \<and> length (filter is_no_seats (sys_pcs s)) = length reqs - K
       \<and> map_option seats_available (flight_by_id (sys_db s) fid) = Some 0
       \<and> length (Bookings (sys_db s)) = length (Bookings start) + K"
proof -
  let ?H = "length (filter is_held (sys_pcs s))"
  let ?R = "length (filter is_no_seats (sys_pcs s))"
  from inv have len: "length (sys_pcs s) = length reqs"
    by (simp add: hold_invariant_def)
  from inv obtain g where g: "flight_by_id (sys_db s) fid = Some g"
    "seats_available g = int K - int ?H"
    "0 \<le> seats_available g"
    "list_ex is_no_seats (sys_pcs s) \<longrightarrow> seats_available g = 0"
    unfolding hold_invariant_def by blast
  from inv have bk: "length (Bookings (sys_db s)) = length (Bookings start) + ?H"
    and fin: "list_all (\<lambda>pc. is_finished pc \<longrightarrow> is_held pc \<or> is_no_seats pc) (sys_pcs s)"
    unfolding hold_invariant_def by blast+
  have "\<forall>pc\<in>set (sys_pcs s). (is_held pc \<or> is_no_seats pc) \<and> \<not> (is_held pc \<and> is_no_seats pc)"
    using fin allfin by (auto simp: list_all_iff is_held_def is_no_seats_def)
  from split_count [OF this] len have sum: "?H + ?R = length reqs" by simp
  from g(2,3) have "?H \<le> K" by simp
  with sum less have "0 < ?R" by linarith
  then have "list_ex is_no_seats (sys_pcs s)"
    by (auto simp: list_ex_iff filter_empty_conv dest: length_pos_if_in_set)
  with g(4) have z: "seats_available g = 0" by simp
  with g(2) have H: "?H = K" by simp
  with sum have R: "?R = length reqs - K" by simp
  from H R z g(1) bk show ?thesis by simp
qed

lemma sum_steps_update:
  "t < length pcs \<Longrightarrow>
     sum_list (map steps_left (pcs[t := y])) + steps_left (pcs ! t)
       = sum_list (map steps_left pcs) + steps_left y"
proof (induction pcs arbitrary: t)
  case Nil
  then show ?case by simp
next
  case (Cons x xs)
  show ?case
  proof (cases t)
    case 0
    then show ?thesis by simp
  next
    case (Suc n)
    with Cons.prems have "n < length xs" by simp
    from Cons.IH [OF this] Suc show ?thesis by simp
  qed
qed

lemma thread_step_progress:
  assumes "thread_step clock draw fails reqs t s = Some s'"
  shows "length (sys_pcs s') = length (sys_pcs s)
       \<and> sum_list (map steps_left (sys_pcs s')) < sum_list (map steps_left (sys_pcs s))"
proof -
  from assms have t: "t < length (sys_pcs s)"
    unfolding thread_step_def by (auto split: if_splits)
  from assms obtain y where y: "sys_pcs s' = (sys_pcs s)[t := y]"
    "steps_left y < steps_left (sys_pcs s ! t)"
    unfolding thread_step_def
    by (auto simp: steps_left_def split: if_splits hold_pc.splits option.splits sum.splits)
  from sum_steps_update [OF t, of y] y show ?thesis by simp
qed

lemma some_thread_can_move:
  assumes len: "length (sys_pcs s) = length reqs"
    and same: "list_all (\<lambda>r. req_flight_id r = fid) reqs"
    and todo: "\<not> list_all is_finished (sys_pcs s)"
  shows "\<exists>t s'. thread_step clock draw fails reqs t s = Some s'"
proof -
  from todo obtain t where t: "t < length (sys_pcs s)" "\<not> is_finished (sys_pcs s ! t)"
    by (auto simp: list_all_length)
  have locked_moves: "\<exists>s'. thread_step clock draw fails reqs k s = Some s'"
    if "k < length (sys_pcs s)" and "holds_lock (sys_pcs s ! k)" for k
    using that len unfolding thread_step_def holds_lock_def
    by (auto split: hold_pc.splits option.splits sum.splits)
  from t len same have fid: "req_flight_id (reqs ! t) = fid"
    by (simp add: list_all_length)
  show ?thesis
  proof (cases "sys_pcs s ! t")
    case Started
    with t len have "\<exists>s'. thread_step clock draw fails reqs t s = Some s'"
      unfolding thread_step_def
      by (cases "flight_by_id (sys_db s) (req_flight_id (reqs ! t))") simp_all
    then show ?thesis by blast
  next
    case Waiting
    show ?thesis
    proof (cases "row_locked reqs (sys_pcs s) fid")
      case True
      with row_locked_iff [OF len same] obtain k where
        "k < length (sys_pcs s)" "holds_lock (sys_pcs s ! k)" by blast
      from locked_moves [OF this] show ?thesis by blast
    next
      case False
      with Waiting t len fid have "\<exists>s'. thread_step clock draw fails reqs t s = Some s'"
        unfolding thread_step_def by simp
      then show ?thesis by blast
    qed
  next
    case (Locked snapshot)
    then have "holds_lock (sys_pcs s ! t)" by (simp add: holds_lock_def)
    from locked_moves [OF t(1) this] show ?thesis by blast
  next
    case (Finished r)
    with t show ?thesis by (simp add: is_finished_def)
  qed
qed

lemma holds_can_complete:
  assumes "length (sys_pcs s) = length reqs"
    and same: "list_all (\<lambda>r. req_flight_id r = fid) reqs"
  shows "\<exists>sched. list_all is_finished (sys_pcs (run_schedule clock draw fails reqs sched s))"
  using assms(1)
proof (induction "sum_list (map steps_left (sys_pcs s))" arbitrary: s rule: less_induct)
  case less
  show ?case
  proof (cases "list_all is_finished (sys_pcs s)")
    case True
    then have "list_all is_finished (sys_pcs (run_schedule clock draw fails reqs [] s))" by simp
    then show ?thesis by blast
  next
    case False
    from some_thread_can_move [OF less.prems same False, of clock draw]
    obtain t s' where st: "thread_step clock draw fails reqs t s = Some s'" by blast
    from thread_step_progress [OF st] less.prems
    have "sum_list (map steps_left (sys_pcs s')) < sum_list (map steps_left (sys_pcs s))"
      and "length (sys_pcs s') = length reqs" by simp_all
    from less.hyps [OF this] obtain sched where
      "list_all is_finished (sys_pcs (run_schedule clock draw fails reqs sched s'))" by blast
    with st have "list_all is_finished (sys_pcs (run_schedule clock draw fails reqs (t # sched) s))"
      by simp
    then show ?thesis by blast
  qed
qed

text \<open>
  What the row lock achieves where the price computation does not raise. Launch \<open>N\<close>
  hold requests at once against a flight with exactly \<open>K < N\<close> seats and an aware
  departure time, and let no statement fail. The requests can always be run to
  completion, and whatever the interleaving of their steps, once all are answered exactly
  \<open>K\<close> were granted a hold, exactly \<open>N - K\<close> were rejected with 409 "No seats available",
  the flight has 0 seats left and exactly \<open>K\<close> bookings were added: no seat is sold
  twice.
\<close>

lemma holds_granted_with_aware_departure:
  assumes "flight_by_id db fid = Some f" and "seats_available f = int K"
    and "departure_date_time f = Aware dep"
    and "K < length reqs" and "list_all (\<lambda>r. req_flight_id r = fid) reqs"
    and nofail: "\<And>t k. \<not> fails t k"
  shows "(\<exists>sched. list_all is_finished
            (sys_pcs (run_schedule clock draw fails reqs sched (launch db reqs))))
       \<and> (\<forall>sched. list_all is_finished
              (sys_pcs (run_schedule clock draw fails reqs sched (launch db reqs))) \<longrightarrow>
            length (filter is_held
              (sys_pcs (run_schedule clock draw fails reqs sched (launch db reqs)))) = K
          \<and> length (filter is_no_seats
              (sys_pcs (run_schedule clock draw fails reqs sched (launch db reqs))))
              = length reqs - K
          \<and> map_option seats_available
              (flight_by_id (sys_db (run_schedule clock draw fails reqs sched (launch db reqs)))
                 fid)
              = Some 0
          \<and> length (Bookings (sys_db (run_schedule clock draw fails reqs sched
                (launch db reqs))))
              = length (Bookings db) + K)"
proof (intro conjI allI impI)
  have "length (sys_pcs (launch db reqs)) = length reqs"
    by (simp add: launch_def)
  from holds_can_complete [OF this assms(5)]
  show "\<exists>sched. list_all is_finished
            (sys_pcs (run_schedule clock draw fails reqs sched (launch db reqs)))" .
next
  fix sched
  assume fin: "list_all is_finished
      (sys_pcs (run_schedule clock draw fails reqs sched (launch db reqs)))"
  have "hold_invariant db fid K reqs (run_schedule clock draw fails reqs sched (launch db reqs))"
    by (rule hold_invariant_run [OF hold_invariant_launch [OF assms(1,2,3)] assms(5) nofail])
  from hold_invariant_final [OF this assms(4) fin]
  show "length (filter is_held
              (sys_pcs (run_schedule clock draw fails reqs sched (launch db reqs)))) = K"
    and "length (filter is_no_seats
              (sys_pcs (run_schedule clock draw fails reqs sched (launch db reqs))))
              = length reqs - K"
    and "map_option seats_available
              (flight_by_id (sys_db (run_schedule clock draw fails reqs sched (launch db reqs)))
                 fid)
              = Some 0"
    and "length (Bookings (sys_db (run_schedule clock draw fails reqs sched
                (launch db reqs))))
              = length (Bookings db) + K"
    by simp_all
qed

text \<open>
  On the flight of the example with an aware departure time, the interleaving that made
  both requests fail above grants the last seat to one of them and rejects the other.
\<close>

lemma race_on_aware_grants_one:
  "map is_held (sys_pcs (run_schedule zero_clock zero_clock no_thread_faults [alice, bob]
        race_schedule (launch db_last_seat [alice, bob]))) = [False, True]
   \<and> map is_no_seats (sys_pcs (run_schedule zero_clock zero_clock no_thread_faults
        [alice, bob] race_schedule (launch db_last_seat [alice, bob]))) = [True, False]
   \<and> map seats_available (Flights (sys_db (run_schedule zero_clock zero_clock
        no_thread_faults [alice, bob] race_schedule (launch db_last_seat [alice, bob]))))
       = [0]"
  by code_simp

end
